theory Spec2Isabelle
  imports Complex_Main
begin

section \<open>Probabilistic sizing of a virtual power plant for FCR: the simulation core\<close>

text \<open>
  A shallow embedding of the simulation core of \<^verbatim>\<open>vpp6.py\<close>: the SOC update,
  the slot simulator, the two year simulators, the Monte Carlo estimator and the
  capacity search. The SOC arrays are lists of binary64 values: a finite value is the
  real it denotes, NaN and the infinities are values of their own, and the sum of a SOC
  and its change is rounded as binary64 rounds it. The random draws, the powers and the
  sums of powers are reals. Boolean arrays are lists of booleans, Python integers are
  \<open>int\<close>. The ambient random generator is an explicit state that is
  passed to every function that draws from it and returned advanced.
\<close>

subsection \<open>Global parameters of the model\<close>

definition ENERGY_HOURS :: real where
  "ENERGY_HOURS = 4"

definition REQUIRED_POWER :: real where
  "REQUIRED_POWER = 10000"

definition N_SLOTS_YEAR :: nat where
  "N_SLOTS_YEAR = 2190"

definition POWER_MEAN :: real where
  "POWER_MEAN = 100"

definition POWER_STD :: real where
  "POWER_STD = 20"

definition SOC_MEAN :: real where
  "SOC_MEAN = 600"

definition SOC_STD :: real where
  "SOC_STD = 100"

definition P_AVAILABLE_FCR :: real where
  "P_AVAILABLE_FCR = 70 / 100"

definition SOC_DEGRADATION_PER_USE :: real where
  "SOC_DEGRADATION_PER_USE = 2 / 1000"

definition TARGET_NET_BALANCE :: real where
  "TARGET_NET_BALANCE = 5 / 10000"

definition SOC_RECHARGE_RATE :: real where
  "SOC_RECHARGE_RATE =
     (SOC_DEGRADATION_PER_USE * P_AVAILABLE_FCR + TARGET_NET_BALANCE) / (1 - P_AVAILABLE_FCR)"

definition MIN_SUCCESS_RATE :: real where
  "MIN_SUCCESS_RATE = 95 / 100"

subsection \<open>Errors and the module-level computation of the recharge rate\<close>

datatype error = ValueError | IndexError | ZeroDivisionError

text \<open>
  Line 30 of the module computes the recharge rate from the availability probability
  when the module is loaded. Python's float division raises \<^verbatim>\<open>ZeroDivisionError\<close>
  on a zero divisor; nothing else is checked. \<open>recharge_rate_at_load p\<close> is that
  line with the availability probability \<open>p\<close> in place of the constant.
\<close>

definition recharge_rate_at_load :: "real \<Rightarrow> error + real" where
  "recharge_rate_at_load p =
     (if 1 - p = 0 then Inl ZeroDivisionError
      else Inr ((SOC_DEGRADATION_PER_USE * p + TARGET_NET_BALANCE) / (1 - p)))"

subsection \<open>The random source\<close>

text \<open>
  The generator state holds the standard normal variates and the uniform variates it
  is going to produce, in order. \<^verbatim>\<open>np.random.normal(loc, scale, n)\<close> takes the next
  \<open>n\<close> normal variates, scaled and shifted; \<^verbatim>\<open>np.random.random(n)\<close> takes the
  next \<open>n\<close> uniform variates.
\<close>

record rng =
  gauss :: "nat \<Rightarrow> real"
  unif :: "nat \<Rightarrow> real"

definition random_normal :: "real \<Rightarrow> real \<Rightarrow> nat \<Rightarrow> rng \<Rightarrow> real list \<times> rng" where
  "random_normal loc scale n g =
     (map (\<lambda>i. loc + scale * gauss g i) [0..<n], g\<lparr>gauss := (\<lambda>i. gauss g (i + n))\<rparr>)"

definition random_random :: "nat \<Rightarrow> rng \<Rightarrow> real list \<times> rng" where
  "random_random n g =
     (map (\<lambda>i. unif g i) [0..<n], g\<lparr>unif := (\<lambda>i. unif g (i + n))\<rparr>)"

subsection \<open>Array helpers\<close>

text \<open>\<^verbatim>\<open>np.clip(xs, lo, None)\<close>: a lower bound only.\<close>

definition clip_low :: "real \<Rightarrow> real list \<Rightarrow> real list" where
  "clip_low lo xs = map (max lo) xs"

text \<open>
  \<^verbatim>\<open>xs[mask] = v\<close> for a boolean mask. NumPy compares the length of the mask with
  the length of the array only when the mask is not empty: an empty mask selects
  nothing and the array is left as it is; any other mask of another length raises
  \<^verbatim>\<open>IndexError\<close>.
\<close>

definition mask_assign :: "real list \<Rightarrow> bool list \<Rightarrow> real \<Rightarrow> error + real list" where
  "mask_assign xs msk v =
     (if length msk = length xs then Inr (map (\<lambda>(x, m). if m then v else x) (zip xs msk))
      else if msk = [] then Inr xs
      else Inl IndexError)"

text \<open>
  \<^verbatim>\<open>xs[mask]\<close>: the entries of \<open>xs\<close> where the mask is true, for a mask of the
  length of \<open>xs\<close>.
\<close>

definition mask_select :: "real list \<Rightarrow> bool list \<Rightarrow> real list" where
  "mask_select xs msk = map fst (filter snd (zip xs msk))"

text \<open>\<^verbatim>\<open>np.sum\<close> of a boolean array: the number of true entries.\<close>

definition count_true :: "bool list \<Rightarrow> nat" where
  "count_true bs = length (filter id bs)"

subsection \<open>Binary64 values\<close>

text \<open>
  \<open>fl x\<close> is the binary64 value nearest to the real \<open>x\<close>, ties to even.
  \<open>binade x\<close> is the exponent of \<open>x\<close>: the largest \<open>e\<close> from 1023 down to
  -1021 with \<open>2 powi e \<le> \<bar>x\<bar>\<close>, and -1022 below that (the subnormal range);
  \<open>ulp x\<close> is the spacing of the binary64 values there, for 53 bits of
  significand. A rounded result of magnitude \<open>2 ^ 1024\<close> or more overflows to an
  infinity.
\<close>

datatype f64 = Fin real | PInf | NInf | NaN

definition round_even :: "real \<Rightarrow> int" where
  "round_even y =
     (let f = \<lfloor>y\<rfloor>
      in if y - of_int f < 1 / 2 then f
         else if 1 / 2 < y - of_int f then f + 1
         else if even f then f else f + 1)"

fun binade_scan :: "nat \<Rightarrow> int \<Rightarrow> real \<Rightarrow> int" where
  "binade_scan 0 e a = e"
| "binade_scan (Suc n) e a = (if 2 powi e \<le> a then e else binade_scan n (e - 1) a)"

definition binade :: "real \<Rightarrow> int" where
  "binade x = binade_scan 2045 1023 \<bar>x\<bar>"

definition ulp :: "real \<Rightarrow> real" where
  "ulp x = 2 powi (binade x - 52)"

definition fl :: "real \<Rightarrow> real" where
  "fl x = (if x = 0 then 0 else of_int (round_even (x / ulp x)) * ulp x)"

definition f64_of_real :: "real \<Rightarrow> f64" where
  "f64_of_real x =
     (let y = fl x
      in if 2 ^ 1024 \<le> y then PInf else if y \<le> - (2 ^ 1024) then NInf else Fin y)"

text \<open>A binary64 value plus a finite one.\<close>

definition f64_add :: "f64 \<Rightarrow> real \<Rightarrow> f64" where
  "f64_add s d =
     (case s of Fin x \<Rightarrow> f64_of_real (x + d) | PInf \<Rightarrow> PInf | NInf \<Rightarrow> NInf | NaN \<Rightarrow> NaN)"

text \<open>\<^verbatim>\<open>s >= y\<close> for a finite \<open>y\<close>: false for NaN.\<close>

definition f64_ge :: "f64 \<Rightarrow> real \<Rightarrow> bool" where
  "f64_ge s y = (case s of Fin x \<Rightarrow> y \<le> x | PInf \<Rightarrow> True | NInf \<Rightarrow> False | NaN \<Rightarrow> False)"

text \<open>\<^verbatim>\<open>np.clip(xs, lo, None)\<close> on a binary64 array: NaN stays NaN.\<close>

definition f64_clip_low :: "real \<Rightarrow> f64 list \<Rightarrow> f64 list" where
  "f64_clip_low lo xs =
     map (\<lambda>s. case s of Fin x \<Rightarrow> Fin (max lo x) | PInf \<Rightarrow> PInf | NInf \<Rightarrow> Fin lo | NaN \<Rightarrow> NaN) xs"

subsection \<open>SOC update\<close>

text \<open>The argument \<open>powers\<close> is not used by the source.\<close>

definition update_soc :: "f64 list \<Rightarrow> real list \<Rightarrow> bool list \<Rightarrow> error + f64 list" where
  "update_soc socs powers available_for_fcr =
     (let delta0 = replicate (length socs) 0
      in case mask_assign delta0 available_for_fcr (- SOC_DEGRADATION_PER_USE * SOC_MEAN) of
           Inl e \<Rightarrow> Inl e
         | Inr delta1 \<Rightarrow>
             (case mask_assign delta1 (map Not available_for_fcr) (SOC_RECHARGE_RATE * SOC_MEAN) of
                Inl e \<Rightarrow> Inl e
              | Inr delta2 \<Rightarrow>
                  Inr (f64_clip_low 0 (map (\<lambda>(s, d). f64_add s d) (zip socs delta2)))))"

subsection \<open>One market slot\<close>

definition simulate_fcr_slot ::
  "f64 list \<Rightarrow> rng \<Rightarrow> (bool \<times> bool list \<times> bool list \<times> real list) \<times> rng" where
  "simulate_fcr_slot socs g =
     (let n_assets = length socs;
          (powers0, g1) = random_normal POWER_MEAN POWER_STD n_assets g;
          powers = clip_low 20 powers0;
          (u, g2) = random_random n_assets g1;
          available_for_fcr = map (\<lambda>x. x < P_AVAILABLE_FCR) u;
          has_enough_soc = map (\<lambda>(s, p). f64_ge s (p * ENERGY_HOURS)) (zip socs powers);
          can_provide_fcr = map (\<lambda>(a, h). a \<and> h) (zip available_for_fcr has_enough_soc);
          available_fcr_power = sum_list (mask_select powers can_provide_fcr);
          success = (available_fcr_power \<ge> REQUIRED_POWER)
      in ((success, can_provide_fcr, available_for_fcr, powers), g2))"

subsection \<open>One simulated year\<close>

text \<open>
  The body of the loop of \<^verbatim>\<open>simulate_year\<close> on the loop variables
  (\<open>socs\<close>, \<open>success_count\<close>) and the generator.
\<close>

definition year_step :: "f64 list \<times> nat \<times> rng \<Rightarrow> error + (f64 list \<times> nat \<times> rng)" where
  "year_step st =
     (case st of (socs, success_count, g) \<Rightarrow>
        let ((success, can_provide, available, powers), g') = simulate_fcr_slot socs g;
            success_count' = (if success then success_count + 1 else success_count)
        in (case update_soc socs powers can_provide of
              Inl e \<Rightarrow> Inl e
            | Inr socs' \<Rightarrow> Inr (socs', success_count', g')))"

fun year_loop :: "nat \<Rightarrow> f64 list \<times> nat \<times> rng \<Rightarrow> error + (f64 list \<times> nat \<times> rng)" where
  "year_loop 0 st = Inr st"
| "year_loop (Suc k) st = (case year_step st of Inl e \<Rightarrow> Inl e | Inr st' \<Rightarrow> year_loop k st')"

text \<open>\<^verbatim>\<open>np.random.normal\<close> raises \<^verbatim>\<open>ValueError\<close> on a negative size.\<close>

definition simulate_year :: "int \<Rightarrow> rng \<Rightarrow> error + (bool \<times> rng)" where
  "simulate_year n_assets g =
     (if n_assets < 0 then Inl ValueError
      else
        let (socs0, g0) = random_normal SOC_MEAN SOC_STD (nat n_assets) g;
            socs = map Fin (clip_low 0 socs0)
        in case year_loop N_SLOTS_YEAR (socs, 0, g0) of
             Inl e \<Rightarrow> Inl e
           | Inr (socs', success_count, g') \<Rightarrow>
               Inr (real success_count / real N_SLOTS_YEAR \<ge> MIN_SUCCESS_RATE, g'))"

text \<open>The loop variables of \<^verbatim>\<open>simulate_year_with_tracking\<close>.\<close>

record tracking =
  cur_socs :: "f64 list"
  cur_count :: nat
  soc_hist :: "f64 list list"
  fcr_power_hist :: "real list"
  success_hist :: "bool list"
  available_hist :: "nat list"
  soc_ok_hist :: "nat list"

text \<open>The dictionary it returns.\<close>

record year_result =
  soc_history :: "f64 list list"
  fcr_power_history :: "real list"
  success_history :: "bool list"
  available_history :: "nat list"
  soc_ok_history :: "nat list"
  success_rate :: real

definition tracking_step :: "tracking \<times> rng \<Rightarrow> error + (tracking \<times> rng)" where
  "tracking_step stg =
     (case stg of (st, g) \<Rightarrow>
        let ((success, can_provide, available, powers), g') = simulate_fcr_slot (cur_socs st) g;
            success_count' = (if success then cur_count st + 1 else cur_count st)
        in (case update_soc (cur_socs st) powers can_provide of
              Inl e \<Rightarrow> Inl e
            | Inr socs' \<Rightarrow>
               Inr (\<lparr>cur_socs = socs',
                     cur_count = success_count',
                     soc_hist = soc_hist st @ [socs'],
                     fcr_power_hist = fcr_power_hist st @ [sum_list (mask_select powers can_provide)],
                     success_hist = success_hist st @ [success],
                     available_hist = available_hist st @ [count_true available],
                     soc_ok_hist = soc_ok_hist st @
                       [count_true (map (\<lambda>(s, p). f64_ge s (p * ENERGY_HOURS)) (zip socs' powers))]\<rparr>,
                    g')))"

fun tracking_loop :: "nat \<Rightarrow> tracking \<times> rng \<Rightarrow> error + (tracking \<times> rng)" where
  "tracking_loop 0 stg = Inr stg"
| "tracking_loop (Suc k) stg =
     (case tracking_step stg of Inl e \<Rightarrow> Inl e | Inr stg' \<Rightarrow> tracking_loop k stg')"

definition simulate_year_with_tracking :: "int \<Rightarrow> rng \<Rightarrow> error + (year_result \<times> rng)" where
  "simulate_year_with_tracking n_assets g =
     (if n_assets < 0 then Inl ValueError
      else
        let (socs0, g0) = random_normal SOC_MEAN SOC_STD (nat n_assets) g;
            socs = map Fin (clip_low 0 socs0);
            st0 = \<lparr>cur_socs = socs, cur_count = 0, soc_hist = [socs], fcr_power_hist = [],
                   success_hist = [], available_hist = [], soc_ok_hist = []\<rparr>
        in case tracking_loop N_SLOTS_YEAR (st0, g0) of
             Inl e \<Rightarrow> Inl e
           | Inr (st, g') \<Rightarrow>
               Inr (\<lparr>soc_history = soc_hist st,
                     fcr_power_history = fcr_power_hist st,
                     success_history = success_hist st,
                     available_history = available_hist st,
                     soc_ok_history = soc_ok_hist st,
                     success_rate = real (cur_count st) / real N_SLOTS_YEAR\<rparr>,
                    g'))"

subsection \<open>Monte Carlo estimator\<close>

fun trial_loop :: "nat \<Rightarrow> int \<Rightarrow> nat \<Rightarrow> rng \<Rightarrow> error + (nat \<times> rng)" where
  "trial_loop 0 n_assets successes g = Inr (successes, g)"
| "trial_loop (Suc k) n_assets successes g =
     (case simulate_year n_assets g of
        Inl e \<Rightarrow> Inl e
      | Inr (ok, g') \<Rightarrow> trial_loop k n_assets (if ok then successes + 1 else successes) g')"

text \<open>Python's \<^verbatim>\<open>successes / n_trials\<close> raises \<^verbatim>\<open>ZeroDivisionError\<close> for zero trials.\<close>

definition annual_success_probability :: "int \<Rightarrow> int \<Rightarrow> rng \<Rightarrow> error + (real \<times> rng)" where
  "annual_success_probability n_assets n_trials g =
     (case trial_loop (nat n_trials) n_assets 0 g of
        Inl e \<Rightarrow> Inl e
      | Inr (successes, g') \<Rightarrow>
          if n_trials = 0 then Inl ZeroDivisionError
          else Inr (real successes / real_of_int n_trials, g'))"

definition installed_capacity :: "int \<Rightarrow> real" where
  "installed_capacity n_assets = real_of_int n_assets * POWER_MEAN"

subsection \<open>Capacity search\<close>

text \<open>
  \<^verbatim>\<open>diagnostic_slot\<close> only prints, but it draws from the generator, and
  \<^verbatim>\<open>np.min\<close> of an empty array raises \<^verbatim>\<open>ValueError\<close>.
\<close>

definition diagnostic_slot :: "int \<Rightarrow> rng \<Rightarrow> error + rng" where
  "diagnostic_slot n_assets g =
     (if n_assets < 0 then Inl ValueError
      else
        let n = nat n_assets;
            (socs0, g1) = random_normal SOC_MEAN SOC_STD n g;
            socs = clip_low 0 socs0;
            (powers0, g2) = random_normal POWER_MEAN POWER_STD n g1;
            powers = clip_low 20 powers0
        in if socs = [] then Inl ValueError
           else let (u, g3) = random_random n g2 in Inr g3)"

text \<open>Python's \<^verbatim>\<open>range(start, stop, step)\<close>.\<close>

function range_up :: "int \<Rightarrow> int \<Rightarrow> int \<Rightarrow> int list" where
  "range_up i stop step = (if 0 < step \<and> i < stop then i # range_up (i + step) stop step else [])"
  by pat_completeness auto
termination
  by (relation "measure (\<lambda>(i, stop, step). nat (stop - i))") auto

function range_down :: "int \<Rightarrow> int \<Rightarrow> int \<Rightarrow> int list" where
  "range_down i stop step = (if step < 0 \<and> stop < i then i # range_down (i + step) stop step else [])"
  by pat_completeness auto
termination
  by (relation "measure (\<lambda>(i, stop, step). nat (i - stop))") auto

definition py_range :: "int \<Rightarrow> int \<Rightarrow> int \<Rightarrow> error + int list" where
  "py_range start stop step =
     (if step = 0 then Inl ValueError
      else if 0 < step then Inr (range_up start stop step)
      else Inr (range_down start stop step))"

fun search_loop ::
  "real \<Rightarrow> int list \<Rightarrow> rng \<Rightarrow> error + ((int \<times> real \<times> real \<times> real) option \<times> rng)" where
  "search_loop confidence_target [] g = Inr (None, g)"
| "search_loop confidence_target (n_assets # rest) g =
     (case annual_success_probability n_assets 100 g of
        Inl e \<Rightarrow> Inl e
      | Inr (prob, g') \<Rightarrow>
          let capacity = installed_capacity n_assets;
              oversizing = capacity / REQUIRED_POWER
          in if prob \<ge> confidence_target
             then Inr (Some (n_assets, capacity, oversizing, prob), g')
             else search_loop confidence_target rest g')"

definition find_min_assets_annual ::
  "real \<Rightarrow> int \<Rightarrow> int \<Rightarrow> int \<Rightarrow> rng \<Rightarrow> error + ((int \<times> real \<times> real \<times> real) option \<times> rng)" where
  "find_min_assets_annual confidence_target n_min n_max step g =
     (case diagnostic_slot n_min g of
        Inl e \<Rightarrow> Inl e
      | Inr g1 \<Rightarrow>
          (case py_range n_min (n_max + 1) step of
             Inl e \<Rightarrow> Inl e
           | Inr candidates \<Rightarrow> search_loop confidence_target candidates g1))"

subsection \<open>The run of a year, slot by slot\<close>

text \<open>
  The loop variables before the first slot: the initial SOC draw, clipped at zero, a
  success count of zero and the generator after the draw. Both year simulators start
  from them.
\<close>

definition year_init :: "nat \<Rightarrow> rng \<Rightarrow> f64 list \<times> nat \<times> rng" where
  "year_init n g =
     (let (socs0, g0) = random_normal SOC_MEAN SOC_STD n g in (map Fin (clip_low 0 socs0), 0, g0))"

text \<open>
  \<open>slot_state t init\<close> is the state of the loop of \<^verbatim>\<open>simulate_year\<close> after \<open>t\<close>
  slots, \<open>slot_outcome t init\<close> what the slot simulator returns in slot \<open>t\<close>
  (slots are counted from zero), \<open>slot_flag\<close> its success flag and \<open>slot_powers\<close>
  the power vector drawn in that slot.
\<close>

definition slot_state :: "nat \<Rightarrow> f64 list \<times> nat \<times> rng \<Rightarrow> f64 list \<times> nat \<times> rng" where
  "slot_state t init = projr (year_loop t init)"

definition slot_outcome ::
  "nat \<Rightarrow> f64 list \<times> nat \<times> rng \<Rightarrow> bool \<times> bool list \<times> bool list \<times> real list" where
  "slot_outcome t init = (case slot_state t init of (socs, c, g) \<Rightarrow> fst (simulate_fcr_slot socs g))"

definition slot_flag :: "nat \<Rightarrow> f64 list \<times> nat \<times> rng \<Rightarrow> bool" where
  "slot_flag t init = fst (slot_outcome t init)"

definition slot_powers :: "nat \<Rightarrow> f64 list \<times> nat \<times> rng \<Rightarrow> real list" where
  "slot_powers t init = snd (snd (snd (slot_outcome t init)))"

text \<open>The success flags of the slots of a year, in order.\<close>

definition year_flags :: "nat \<Rightarrow> rng \<Rightarrow> bool list" where
  "year_flags n g = map (\<lambda>t. slot_flag t (year_init n g)) [0..<N_SLOTS_YEAR]"

text \<open>\<^verbatim>\<open>socs >= powers * ENERGY_HOURS\<close>, elementwise.\<close>

definition has_enough :: "f64 list \<Rightarrow> real list \<Rightarrow> bool list" where
  "has_enough socs powers = map (\<lambda>(s, p). f64_ge s (p * ENERGY_HOURS)) (zip socs powers)"

text \<open>
  The loop variables of the tracking variant after \<open>k\<close> slots, written in terms of the
  run of the lightweight loop.
\<close>

definition track_of :: "tracking \<Rightarrow> nat \<Rightarrow> f64 list \<times> nat \<times> rng \<Rightarrow> tracking" where
  "track_of st k init =
     \<lparr>cur_socs = fst (slot_state k init),
      cur_count = fst (snd (slot_state k init)),
      soc_hist = soc_hist st @ map (\<lambda>t. fst (slot_state (Suc t) init)) [0..<k],
      fcr_power_hist = fcr_power_hist st @
        map (\<lambda>t. case slot_outcome t init of (success, can_provide, available, powers) \<Rightarrow>
                    sum_list (mask_select powers can_provide)) [0..<k],
      success_hist = success_hist st @ map (\<lambda>t. slot_flag t init) [0..<k],
      available_hist = available_hist st @
        map (\<lambda>t. case slot_outcome t init of (success, can_provide, available, powers) \<Rightarrow>
                    count_true available) [0..<k],
      soc_ok_hist = soc_ok_hist st @
        map (\<lambda>t. count_true (has_enough (fst (slot_state (Suc t) init)) (slot_powers t init)))
          [0..<k]\<rparr>"

subsection \<open>The capacity search as the specification words it\<close>

text \<open>
  The candidate sizes \<open>n_min, n_min + step, n_min + 2 * step, \<dots>\<close> up to \<open>n_max\<close>;
  the estimate of every candidate, the estimator being called for the candidates in
  ascending order on one generator; and the first candidate whose estimate reaches the
  confidence target, with its capacity, oversizing ratio and estimate.
\<close>

definition spec_candidates :: "int \<Rightarrow> int \<Rightarrow> int \<Rightarrow> int list" where
  "spec_candidates n_min n_max step =
     map (\<lambda>k. n_min + int k * step) [0..<nat ((n_max - n_min) div step + 1)]"

fun estimates :: "int list \<Rightarrow> rng \<Rightarrow> (int \<times> real) list" where
  "estimates [] g = []"
| "estimates (n # ns) g =
     (let (p, g') = projr (annual_success_probability n 100 g) in (n, p) # estimates ns g')"

definition spec_capacity_search ::
  "real \<Rightarrow> int \<Rightarrow> int \<Rightarrow> int \<Rightarrow> rng \<Rightarrow> (int \<times> real \<times> real \<times> real) option" where
  "spec_capacity_search confidence_target n_min n_max step g =
     (case find (\<lambda>(n, p). confidence_target \<le> p) (estimates (spec_candidates n_min n_max step) g) of
        None \<Rightarrow> None
      | Some (n, p) \<Rightarrow>
          Some (n, real_of_int n * POWER_MEAN, real_of_int n * POWER_MEAN / REQUIRED_POWER, p))"

subsection \<open>Example random sources\<close>

text \<open>
  All normal variates are zero (every power is 100 kW, every initial SOC 600 kWh); the
  first hundred uniform variates are 0 (available), all later ones 0.9 (not available).
\<close>

definition rng_first_slot_only :: rng where
  "rng_first_slot_only = \<lparr>gauss = (\<lambda>i. 0), unif = (\<lambda>i. if i < 100 then 0 else 9 / 10)\<rparr>"

text \<open>
  One asset whose initial SOC is 400.5 kWh, just above the 400 kWh that 100 kW need for
  four hours; always available.
\<close>

definition rng_threshold_cross :: rng where
  "rng_threshold_cross = \<lparr>gauss = (\<lambda>i. if i = 0 then - (1995 / 1000) else 0), unif = (\<lambda>i. 0)\<rparr>"

text \<open>No asset is ever available.\<close>

definition rng_never_available :: rng where
  "rng_never_available = \<lparr>gauss = (\<lambda>i. 0), unif = (\<lambda>i. 9 / 10)\<rparr>"

section \<open>Properties\<close>

lemmas params_defs =
  ENERGY_HOURS_def REQUIRED_POWER_def N_SLOTS_YEAR_def POWER_MEAN_def POWER_STD_def
  SOC_MEAN_def SOC_STD_def P_AVAILABLE_FCR_def SOC_DEGRADATION_PER_USE_def
  TARGET_NET_BALANCE_def SOC_RECHARGE_RATE_def MIN_SUCCESS_RATE_def

lemma discharge_amount: "SOC_DEGRADATION_PER_USE * SOC_MEAN = 12 / 10"
  by (simp add: params_defs)

lemma recharge_amount: "SOC_RECHARGE_RATE * SOC_MEAN = 38 / 10"
  by (simp add: params_defs)

lemma rates_positive: "0 < SOC_DEGRADATION_PER_USE \<and> 0 < SOC_RECHARGE_RATE"
  by (simp add: params_defs)

subsection \<open>Binary64 rounding\<close>

lemma round_even_error: "\<bar>of_int (round_even y) - y\<bar> \<le> 1 / 2"
  unfolding round_even_def Let_def by (auto simp: abs_if) linarith+

lemma round_even_of_int [simp]: "round_even (of_int j) = j"
  by (simp add: round_even_def)

lemma binade_scan_found: "2 powi binade_scan n e a \<le> a \<or> binade_scan n e a = e - int n"
proof (induction n arbitrary: e)
  case 0
  show ?case by simp
next
  case (Suc n)
  show ?case using Suc [of "e - 1"] by (auto simp: algebra_simps)
qed

lemma binade_scan_less:
  assumes "a < 2 powi m" and "e - int n < m"
  shows "binade_scan n e a < m"
proof (rule ccontr)
  assume "\<not> binade_scan n e a < m"
  then have le: "m \<le> binade_scan n e a" by simp
  then have "binade_scan n e a \<noteq> e - int n" using assms(2) by simp
  then have "2 powi binade_scan n e a \<le> a" using binade_scan_found [of n e a] by blast
  moreover have "(2::real) powi m \<le> 2 powi binade_scan n e a"
    using le by (intro power_int_increasing) auto
  ultimately show False using assms(1) by linarith
qed

lemma binade_scan_ge:
  assumes "2 powi k \<le> a" and "e - int n \<le> k" and "k \<le> e"
  shows "k \<le> binade_scan n e a"
  using assms
proof (induction n arbitrary: e)
  case 0
  then show ?case by simp
next
  case (Suc n)
  show ?case
  proof (cases "2 powi e \<le> a")
    case True
    then show ?thesis using Suc.prems by simp
  next
    case False
    then have "k \<noteq> e" using Suc.prems(1) by auto
    then have "k \<le> binade_scan n (e - 1) a"
      using Suc.prems by (intro Suc.IH) auto
    then show ?thesis using False by simp
  qed
qed

lemma binade_less:
  assumes "\<bar>x\<bar> < 2 ^ n"
  shows "binade x < int n"
proof -
  have "\<bar>x\<bar> < 2 powi int n" using assms by simp
  then show ?thesis unfolding binade_def by (rule binade_scan_less) simp
qed

lemma binade_eq:
  assumes "2 ^ k \<le> \<bar>x\<bar>" and "\<bar>x\<bar> < 2 ^ Suc k" and "k \<le> 1023"
  shows "binade x = int k"
proof -
  have "2 powi int k \<le> \<bar>x\<bar>" using assms(1) by simp
  then have "int k \<le> binade x"
    unfolding binade_def using assms(3) by (intro binade_scan_ge) auto
  moreover have "binade x < int (Suc k)" using assms(2) by (rule binade_less)
  ultimately show ?thesis by simp
qed

lemma ulp_pos: "0 < ulp x"
  by (simp add: ulp_def)

lemma ulp_le:
  assumes "\<bar>x\<bar> < 2 ^ n"
  shows "ulp x \<le> 2 ^ n / 2 ^ 53"
proof -
  have "binade x - 52 \<le> int n - 53" using binade_less [OF assms] by simp
  then have "ulp x \<le> 2 powi (int n - 53)"
    unfolding ulp_def by (intro power_int_increasing) auto
  also have "\<dots> = 2 ^ n / 2 ^ 53"
    by (simp add: power_int_diff)
  finally show ?thesis .
qed

lemma ulp_eq:
  assumes "2 ^ k \<le> \<bar>x\<bar>" and "\<bar>x\<bar> < 2 ^ Suc k" and "k \<le> 1023"
  shows "ulp x = 2 powi (int k - 52)"
  by (simp add: ulp_def binade_eq [OF assms])

lemma fl_error:
  assumes "\<bar>x\<bar> < 2 ^ n"
  shows "\<bar>fl x - x\<bar> \<le> 2 ^ n / 2 ^ 54"
proof (cases "x = 0")
  case True
  then show ?thesis by (simp add: fl_def)
next
  case False
  have "fl x - x = (of_int (round_even (x / ulp x)) - x / ulp x) * ulp x"
    using ulp_pos [of x] False by (simp add: fl_def field_simps)
  then have "\<bar>fl x - x\<bar> = \<bar>of_int (round_even (x / ulp x)) - x / ulp x\<bar> * ulp x"
    using ulp_pos [of x] by (simp add: abs_mult)
  also have "\<dots> \<le> 1 / 2 * ulp x"
    using round_even_error [of "x / ulp x"] ulp_pos [of x] by (intro mult_right_mono) auto
  also have "\<dots> \<le> 1 / 2 * (2 ^ n / 2 ^ 53)"
    using ulp_le [OF assms] by simp
  finally show ?thesis by simp
qed

lemma fl_bounds:
  assumes "\<bar>x\<bar> < 2 ^ n"
  shows "x - 2 ^ n / 2 ^ 54 \<le> fl x" and "fl x \<le> x + 2 ^ n / 2 ^ 54"
proof -
  from fl_error [OF assms]
  have "fl x - x \<le> 2 ^ n / 2 ^ 54" and "- (fl x - x) \<le> 2 ^ n / 2 ^ 54"
    unfolding abs_le_iff by blast+
  then show "x - 2 ^ n / 2 ^ 54 \<le> fl x" and "fl x \<le> x + 2 ^ n / 2 ^ 54"
    by linarith+
qed

lemma f64_of_real_Fin:
  assumes "\<bar>x\<bar> < 2 ^ n" and "n \<le> 1023"
  shows "f64_of_real x = Fin (fl x)"
proof -
  have "(2::real) ^ n / 2 ^ 54 \<le> 2 ^ n" by (simp add: field_simps)
  then have "\<bar>fl x\<bar> < 2 * 2 ^ n"
    using fl_error [OF assms(1)] assms(1) by linarith
  moreover have "(2::real) * 2 ^ n \<le> 2 ^ 1024"
    using assms(2) power_increasing [of "Suc n" 1024 "2::real"] by simp
  ultimately have "\<bar>fl x\<bar> < 2 ^ 1024" by linarith
  then show ?thesis by (auto simp: f64_of_real_def Let_def)
qed

lemma fl_absorb_down: "fl (100000000000000000 - 12 / 10) = 100000000000000000"
proof -
  define x :: real where "x = 100000000000000000 - 12 / 10"
  have u: "ulp x = 16"
    using ulp_eq [of 56 x] by (simp add: x_def)
  have "\<lfloor>x / 16\<rfloor> = 6249999999999999" by (simp add: x_def floor_eq_iff)
  then have r: "round_even (x / 16) = 6250000000000000"
    by (simp add: round_even_def) (simp add: x_def)
  have "x \<noteq> 0" by (simp add: x_def)
  then have "fl x = 100000000000000000"
    unfolding fl_def u r by simp
  then show ?thesis unfolding x_def .
qed

lemma fl_absorb_up: "fl (100000000000000000 + 38 / 10) = 100000000000000000"
proof -
  define x :: real where "x = 100000000000000000 + 38 / 10"
  have u: "ulp x = 16"
    using ulp_eq [of 56 x] by (simp add: x_def)
  have "\<lfloor>x / 16\<rfloor> = 6250000000000000" by (simp add: x_def floor_eq_iff)
  then have r: "round_even (x / 16) = 6250000000000000"
    by (simp add: round_even_def) (simp add: x_def)
  have "x \<noteq> 0" by (simp add: x_def)
  then have "fl x = 100000000000000000"
    unfolding fl_def u r by simp
  then show ?thesis unfolding x_def .
qed

lemma fl_of_int:
  assumes "\<bar>k\<bar> < 2 ^ 53"
  shows "fl (of_int k) = of_int k"
proof (cases "k = 0")
  case True
  then show ?thesis by (simp add: fl_def)
next
  case False
  let ?x = "real_of_int k"
  have one: "2 powi 0 \<le> \<bar>?x\<bar>" using False by (simp flip: of_int_abs)
  have e0: "0 \<le> binade ?x"
    unfolding binade_def using one by (intro binade_scan_ge) auto
  have "\<bar>?x\<bar> < 2 ^ 53" using assms by (metis of_int_abs of_int_less_numeral_power_cancel_iff)
  then have "binade ?x < int 53" by (rule binade_less)
  then have e52: "binade ?x \<le> 52" by simp
  define m where "m = nat (52 - binade ?x)"
  have m: "binade ?x - 52 = - int m"
    using e0 e52 by (simp add: m_def)
  have u: "ulp ?x = 1 / 2 ^ m"
    unfolding ulp_def m by (simp add: power_int_minus_divide)
  have "?x / ulp ?x = of_int (k * 2 ^ m)" by (simp add: u)
  then have "round_even (?x / ulp ?x) = k * 2 ^ m"
    by (simp only: round_even_of_int)
  then show ?thesis
    using False by (simp add: fl_def u)
qed

lemma f64_add_zero_int: "\<bar>k\<bar> < 2 ^ 53 \<Longrightarrow> f64_add (Fin (of_int k)) 0 = Fin (of_int k)"
proof -
  assume a: "\<bar>k\<bar> < 2 ^ 53"
  then have "\<bar>real_of_int k\<bar> < 2 ^ 53"
    by (metis of_int_abs of_int_less_numeral_power_cancel_iff)
  then have "f64_of_real (of_int k) = Fin (fl (of_int k))"
    by (rule f64_of_real_Fin [of _ 53]) simp
  then show ?thesis using fl_of_int [OF a] by (simp add: f64_add_def)
qed

subsection \<open>SOC update\<close>

lemma length_f64_clip_low [simp]: "length (f64_clip_low lo xs) = length xs"
  by (simp add: f64_clip_low_def)

lemma update_soc_Inr:
  assumes "length msk = length socs"
  shows "update_soc socs powers msk =
     Inr (f64_clip_low 0
            (map (\<lambda>(s, m). f64_add s (if m then - (12 / 10) else 38 / 10)) (zip socs msk)))"
proof -
  have d1: "mask_assign (replicate (length socs) 0) msk (- SOC_DEGRADATION_PER_USE * SOC_MEAN)
              = Inr (map (\<lambda>m. if m then - (12 / 10) else 0) msk)"
    using assms discharge_amount
    by (auto simp: mask_assign_def intro!: nth_equalityI)
  have d2: "mask_assign (map (\<lambda>m. if m then - (12 / 10) else 0) msk) (map Not msk)
              (SOC_RECHARGE_RATE * SOC_MEAN)
              = Inr (map (\<lambda>m. if m then - (12 / 10) else 38 / 10) msk)"
    using recharge_amount
    by (auto simp: mask_assign_def intro!: nth_equalityI)
  have z: "map (\<lambda>(s, d). f64_add s d) (zip socs (map (\<lambda>m. if m then - (12 / 10) else 38 / 10) msk))
             = map (\<lambda>(s, m). f64_add s (if m then - (12 / 10) else 38 / 10)) (zip socs msk)"
    using assms by (auto intro!: nth_equalityI)
  show ?thesis
    unfolding update_soc_def Let_def d1 d2 sum.case z ..
qed

lemma update_soc_empty_mask:
  "update_soc socs powers [] = Inr (f64_clip_low 0 (map (\<lambda>s. f64_add s 0) socs))"
proof -
  have d1: "mask_assign (replicate (length socs) 0) [] (- SOC_DEGRADATION_PER_USE * SOC_MEAN)
              = Inr (replicate (length socs) 0)"
    by (auto simp: mask_assign_def)
  have d2: "mask_assign (replicate (length socs) 0) (map Not []) (SOC_RECHARGE_RATE * SOC_MEAN)
              = Inr (replicate (length socs) 0)"
    by (auto simp: mask_assign_def)
  have z: "map (\<lambda>(s, d). f64_add s d) (zip socs (replicate (length socs) 0))
             = map (\<lambda>s. f64_add s 0) socs"
    by (auto intro!: nth_equalityI)
  show ?thesis
    unfolding update_soc_def Let_def d1 d2 sum.case z ..
qed

lemma update_soc_Inl:
  "length msk \<noteq> length socs \<Longrightarrow> msk \<noteq> [] \<Longrightarrow> update_soc socs powers msk = Inl IndexError"
  by (simp add: update_soc_def mask_assign_def)

text \<open>An empty mask on three assets: nothing is changed, the vector is clipped.\<close>

lemma update_soc_empty_mask_example:
  "update_soc [Fin 600, Fin 5, Fin (- 3)] [100, 100, 100] [] = Inr [Fin 600, Fin 5, Fin 0]"
  using f64_add_zero_int [of 600] f64_add_zero_int [of 5] f64_add_zero_int [of "- 3"]
  by (simp add: update_soc_empty_mask f64_clip_low_def)

lemma clip_add_ge: "s \<noteq> NaN \<Longrightarrow> f64_ge (case f64_add s d of Fin x \<Rightarrow> Fin (max 0 x) | PInf \<Rightarrow> PInf | NInf \<Rightarrow> Fin 0 | NaN \<Rightarrow> NaN) 0"
  by (cases s) (auto simp: f64_add_def f64_of_real_def f64_ge_def Let_def)

lemma clip_add_nan: "(case f64_add NaN d of Fin x \<Rightarrow> Fin (max 0 x) | PInf \<Rightarrow> PInf | NInf \<Rightarrow> Fin 0 | NaN \<Rightarrow> NaN) = NaN"
  by (simp add: f64_add_def)

text \<open>
  Claim C6, amended. Whatever the SOC vector, the power vector and the mask, the update
  returns a vector of the length of the SOC vector whenever the mask has that length or
  is empty (any other mask raises \<^verbatim>\<open>IndexError\<close>), and every component of it whose
  input is not NaN is at least zero: finite values of any size and sign, also those
  that the change drives below zero, and the infinities. A NaN component stays NaN.
\<close>

theorem update_soc_nonneg:
  "case update_soc socs powers msk of
     Inl e \<Rightarrow> e = IndexError \<and> length msk \<noteq> length socs \<and> msk \<noteq> []
   | Inr out \<Rightarrow>
       (length msk = length socs \<or> msk = []) \<and> length out = length socs \<and>
       (\<forall>i<length socs. socs ! i \<noteq> NaN \<longrightarrow> f64_ge (out ! i) 0) \<and>
       (\<forall>i<length socs. socs ! i = NaN \<longrightarrow> out ! i = NaN)"
proof (cases "length msk = length socs")
  case True
  then show ?thesis
    by (auto simp: update_soc_Inr f64_clip_low_def clip_add_ge clip_add_nan)
next
  case False
  show ?thesis
  proof (cases "msk = []")
    case True
    then show ?thesis
      by (auto simp: update_soc_empty_mask f64_clip_low_def clip_add_ge clip_add_nan)
  next
    case False
    with \<open>length msk \<noteq> length socs\<close> show ?thesis by (simp add: update_soc_Inl)
  qed
qed

lemma update_soc_nth:
  assumes "update_soc socs powers msk = Inr out" and "i < length socs" and "i < length msk"
  shows "length msk = length socs" and "length out = length socs"
    and "out ! i = (case f64_add (socs ! i) (if msk ! i then - (12 / 10) else 38 / 10) of
                      Fin x \<Rightarrow> Fin (max 0 x) | PInf \<Rightarrow> PInf | NInf \<Rightarrow> Fin 0 | NaN \<Rightarrow> NaN)"
proof -
  have ne: "msk \<noteq> []" using assms(3) by auto
  show len: "length msk = length socs"
    using assms(1) update_soc_Inl [OF _ ne, of socs powers] by (cases "length msk = length socs") auto
  from update_soc_Inr [OF len, of powers] assms(1)
  have out: "out = f64_clip_low 0
            (map (\<lambda>(s, m). f64_add s (if m then - (12 / 10) else 38 / 10)) (zip socs msk))"
    by simp
  show "length out = length socs" using len by (simp add: out)
  show "out ! i = (case f64_add (socs ! i) (if msk ! i then - (12 / 10) else 38 / 10) of
                      Fin x \<Rightarrow> Fin (max 0 x) | PInf \<Rightarrow> PInf | NInf \<Rightarrow> Fin 0 | NaN \<Rightarrow> NaN)"
    using assms(2) len by (simp add: out f64_clip_low_def)
qed

lemma add_small:
  assumes "\<bar>x\<bar> \<le> 2 ^ 53" and "\<bar>d\<bar> \<le> 4"
  shows "f64_add (Fin x) d = Fin (fl (x + d))" and "\<bar>fl (x + d) - (x + d)\<bar> \<le> 1"
proof -
  have b: "\<bar>x + d\<bar> < 2 ^ 54" using assms by simp
  show "f64_add (Fin x) d = Fin (fl (x + d))"
    using f64_of_real_Fin [OF b] by (simp add: f64_add_def)
  show "\<bar>fl (x + d) - (x + d)\<bar> \<le> 1"
    using fl_error [OF b] by simp
qed

text \<open>
  Claim C8, amended. The degradation and recharge rates of the module are positive, and
  in every update that returns a vector, an asset whose SOC is between 0 and \<open>2 ^ 53\<close>
  and whose mask entry is true ends strictly below its SOC, or stays at zero when it was
  at zero; an asset whose SOC is between \<open>- 2 ^ 53\<close> and \<open>2 ^ 53\<close> and whose mask
  entry is false ends strictly above its SOC.
\<close>

theorem update_soc_direction:
  assumes "update_soc socs powers msk = Inr out" and "i < length socs" and "i < length msk"
    and "socs ! i = Fin x" and "\<bar>x\<bar> \<le> 2 ^ 53"
  shows "0 < SOC_DEGRADATION_PER_USE \<and> 0 < SOC_RECHARGE_RATE \<and>
         (\<exists>y. out ! i = Fin y \<and> 0 \<le> y \<and>
              (msk ! i \<and> 0 \<le> x \<longrightarrow> y < x \<or> (x = 0 \<and> y = 0)) \<and>
              (\<not> msk ! i \<longrightarrow> x < y))"
proof (cases "msk ! i")
  case True
  note a = add_small [OF assms(5), of "- (12 / 10)"]
  have "out ! i = Fin (max 0 (fl (x + - (12 / 10))))"
    using update_soc_nth(3) [OF assms(1-3)] True a(1) by (simp add: assms(4))
  moreover have "fl (x + - (12 / 10)) < x" using a(2) by simp
  ultimately show ?thesis using True rates_positive by auto
next
  case False
  note a = add_small [OF assms(5), of "38 / 10"]
  have "out ! i = Fin (max 0 (fl (x + 38 / 10)))"
    using update_soc_nth(3) [OF assms(1-3)] False a(1) by (simp add: assms(4))
  moreover have "x < fl (x + 38 / 10)" using a(2) by simp
  ultimately show ?thesis using False rates_positive by auto
qed

text \<open>A used asset at 600 kWh, a used asset at the floor and an unused asset at 5 kWh.\<close>

theorem update_soc_direction_witness:
  "\<exists>out y0 y1 y2.
     update_soc [Fin 600, Fin 0, Fin 5] [100, 100, 100] [True, True, False] = Inr out \<and>
     out ! 0 = Fin y0 \<and> y0 < 600 \<and> out ! 1 = Fin y1 \<and> y1 = 0 \<and> out ! 2 = Fin y2 \<and> 5 < y2"
proof -
  let ?socs = "[Fin 600, Fin 0, Fin 5]"
  let ?msk = "[True, True, False]"
  obtain out where u: "update_soc ?socs [100, 100, 100] ?msk = Inr out"
    by (simp add: update_soc_Inr)
  have "\<exists>y. out ! 0 = Fin y \<and> y < 600"
    using update_soc_direction [OF u, of 0 600] by auto
  moreover have "\<exists>y. out ! 1 = Fin y \<and> y = 0"
    using update_soc_direction [OF u, of 1 0] by auto
  moreover have "\<exists>y. out ! 2 = Fin y \<and> 5 < y"
    using update_soc_direction [OF u, of 2 5] by auto
  ultimately show ?thesis using u by blast
qed

text \<open>
  Claim C8 as stated fails. At a SOC of 1e17 kWh the spacing of the binary64 values is
  16, so the change of -1.2 or +3.8 is rounded away: the used asset does not decrease
  and is not at zero, the unused asset does not increase. And a used asset with a
  negative SOC is raised to zero.
\<close>

theorem update_soc_absorbed:
  "update_soc [Fin 100000000000000000, Fin 100000000000000000] [100, 100] [True, False]
     = Inr [Fin 100000000000000000, Fin 100000000000000000] \<and>
   update_soc [Fin (- 5)] [100] [True] = Inr [Fin 0]"
proof -
  have b: "(100000000000000000::real) < 2 ^ 1024" by simp
  have a: "update_soc [Fin 100000000000000000, Fin 100000000000000000] [100, 100] [True, False]
     = Inr [Fin 100000000000000000, Fin 100000000000000000]"
    by (simp add: update_soc_Inr f64_clip_low_def f64_add_def f64_of_real_def
        fl_absorb_down [simplified] fl_absorb_up [simplified])
  have c: "\<bar>- 5 + - (12 / 10) :: real\<bar> < 2 ^ 3" by simp
  have "fl (- 5 + - (12 / 10)) < 0"
    using fl_bounds(2) [OF c] by simp
  then have "update_soc [Fin (- 5)] [100] [True] = Inr [Fin 0]"
    using f64_of_real_Fin [OF c] by (simp add: update_soc_Inr f64_clip_low_def f64_add_def)
  with a show ?thesis by blast
qed

text \<open>
  A used asset that the update drives below zero and an unused asset at minus infinity
  both end at zero.
\<close>

theorem update_soc_nonneg_witness:
  "update_soc [Fin 1, NInf] [100, 100] [True, False] = Inr [Fin 0, Fin 0] \<and> f64_ge (Fin 0) 0"
proof -
  have c: "\<bar>1 + - (12 / 10) :: real\<bar> < 2 ^ 0" by simp
  have "fl (1 + - (12 / 10)) < 0"
    using fl_bounds(2) [OF c] by simp
  then have u: "update_soc [Fin 1, NInf] [100, 100] [True, False] = Inr [Fin 0, Fin 0]"
    using f64_of_real_Fin [OF c] by (simp add: update_soc_Inr f64_clip_low_def f64_add_def)
  show ?thesis
    using update_soc_nonneg [where socs = "[Fin 1, NInf]" and powers = "[100, 100]"
        and msk = "[True, False]"] u
    by (simp add: f64_ge_def)
qed

text \<open>
  Claim C6 as stated fails: a NaN in the SOC vector comes back as NaN, which is not at
  least zero.
\<close>

theorem update_soc_nan:
  "update_soc [NaN] [100] [True] = Inr [NaN] \<and> \<not> f64_ge NaN 0"
  by (simp add: update_soc_Inr f64_clip_low_def f64_add_def f64_ge_def)

subsection \<open>Slot simulator\<close>

lemma sum_list_mask_select:
  "length ms = length xs \<Longrightarrow>
   sum_list (mask_select xs ms) = (\<Sum>i<length xs. if ms ! i then xs ! i else 0)"
proof (induction xs ms rule: list_induct2')
  case (4 x xs m ms)
  then have "sum_list (mask_select xs ms) = (\<Sum>i<length xs. if ms ! i then xs ! i else 0)"
    by simp
  then show ?case
    by (simp add: mask_select_def sum.lessThan_Suc_shift del: sum.lessThan_Suc cong: if_cong)
qed (simp_all add: mask_select_def)

lemma length_random_normal [simp]: "length (fst (random_normal loc scale n g)) = n"
  by (simp add: random_normal_def)

lemma length_random_random [simp]: "length (fst (random_random n g)) = n"
  by (simp add: random_random_def)

lemma length_clip_low [simp]: "length (clip_low lo xs) = length xs"
  by (simp add: clip_low_def)

lemma simulate_fcr_slot_lengths:
  assumes "simulate_fcr_slot socs g = ((success, can_provide, available, powers), g')"
  shows "length can_provide = length socs" and "length available = length socs"
    and "length powers = length socs"
  using assms
  by (auto simp: simulate_fcr_slot_def Let_def random_normal_def random_random_def
      split: prod.splits)

lemma simulate_fcr_slot_can_nth:
  assumes "simulate_fcr_slot socs g = ((success, can_provide, available, powers), g')"
    and "i < length socs"
  shows "can_provide ! i = (available ! i \<and> f64_ge (socs ! i) (powers ! i * ENERGY_HOURS))"
  using assms
  by (auto simp: simulate_fcr_slot_def Let_def random_normal_def random_random_def clip_low_def
      split: prod.splits)

lemma simulate_fcr_slot_success:
  assumes "simulate_fcr_slot socs g = ((success, can_provide, available, powers), g')"
  shows "success = (REQUIRED_POWER \<le> sum_list (mask_select powers can_provide))"
  using assms
  by (auto simp: simulate_fcr_slot_def Let_def split: prod.splits)

lemma simulate_fcr_slot_draws:
  assumes "simulate_fcr_slot socs g = ((success, can_provide, available, powers), g')"
  shows "powers = clip_low 20 (fst (random_normal POWER_MEAN POWER_STD (length socs) g))"
    and "available = map (\<lambda>x. x < P_AVAILABLE_FCR)
           (fst (random_random (length socs) (snd (random_normal POWER_MEAN POWER_STD (length socs) g))))"
  using assms
  by (auto simp: simulate_fcr_slot_def Let_def split: prod.splits)

text \<open>
  Claim C5. For every SOC vector and every state of the random source, the success flag
  of the slot simulator is true exactly when the drawn powers (clipped at 20 kW) of the
  assets whose can-deliver entry is true sum to at least the required power; equality
  counts as success.
\<close>

theorem simulate_fcr_slot_success_iff:
  "case simulate_fcr_slot socs g of
     ((success, can_provide, available, powers), g') \<Rightarrow>
       powers = clip_low 20 (fst (random_normal POWER_MEAN POWER_STD (length socs) g)) \<and>
       length can_provide = length socs \<and>
       success = (REQUIRED_POWER \<le> (\<Sum>i<length socs. if can_provide ! i then powers ! i else 0))"
proof -
  obtain success can_provide available powers g'
    where eq: "simulate_fcr_slot socs g = ((success, can_provide, available, powers), g')"
    by (metis surj_pair)
  note len = simulate_fcr_slot_lengths [OF eq]
  have "sum_list (mask_select powers can_provide)
          = (\<Sum>i<length socs. if can_provide ! i then powers ! i else 0)"
    using sum_list_mask_select [of can_provide powers] len by simp
  then have s: "success = (REQUIRED_POWER \<le> (\<Sum>i<length socs. if can_provide ! i then powers ! i else 0))"
    using simulate_fcr_slot_success [OF eq] by simp
  show ?thesis
    unfolding eq prod.case using s len(1) simulate_fcr_slot_draws(1) [OF eq] by blast
qed

text \<open>
  Claim C7. For every SOC vector and every state of the random source, the can-deliver
  mask is a subset of the available mask, index by index; both have the length of the
  SOC vector.
\<close>

theorem can_deliver_subset_available:
  "case simulate_fcr_slot socs g of
     ((success, can_provide, available, powers), g') \<Rightarrow>
       length can_provide = length socs \<and> length available = length socs \<and>
       (\<forall>i<length socs. can_provide ! i \<longrightarrow> available ! i)"
proof -
  obtain success can_provide available powers g'
    where eq: "simulate_fcr_slot socs g = ((success, can_provide, available, powers), g')"
    by (metis surj_pair)
  show ?thesis
    using eq simulate_fcr_slot_lengths [OF eq] simulate_fcr_slot_can_nth [OF eq] by simp
qed

subsection \<open>The year loops\<close>

lemma year_step_Inr:
  assumes "simulate_fcr_slot socs g = ((success, can_provide, available, powers), g')"
  shows "year_step (socs, c, g) =
           Inr (projr (update_soc socs powers can_provide), (if success then c + 1 else c), g')"
    and "length (projr (update_soc socs powers can_provide)) = length socs"
proof -
  have len: "length can_provide = length socs"
    using simulate_fcr_slot_lengths(1) [OF assms] .
  show "year_step (socs, c, g) =
           Inr (projr (update_soc socs powers can_provide), (if success then c + 1 else c), g')"
    by (simp add: year_step_def assms update_soc_Inr [OF len])
  show "length (projr (update_soc socs powers can_provide)) = length socs"
    by (simp add: update_soc_Inr [OF len] len)
qed

lemma year_step_total: "\<exists>st'. year_step st = Inr st'"
proof -
  obtain socs c g where st: "st = (socs, c, g)" by (metis prod_cases3)
  obtain success can_provide available powers g'
    where eq: "simulate_fcr_slot socs g = ((success, can_provide, available, powers), g')"
    by (metis surj_pair)
  show ?thesis unfolding st using year_step_Inr(1) [OF eq] by blast
qed

lemma year_loop_total: "\<exists>st'. year_loop k st = Inr st'"
proof (induction k arbitrary: st)
  case 0
  show ?case unfolding year_loop.simps by blast
next
  case (Suc k)
  obtain st1 where "year_step st = Inr st1" using year_step_total by blast
  then show ?case using Suc [of st1] by simp
qed

lemma year_loop_snoc:
  "year_loop (Suc k) st = (case year_loop k st of Inl e \<Rightarrow> Inl e | Inr st' \<Rightarrow> year_step st')"
proof (induction k arbitrary: st)
  case 0
  show ?case by (simp split: sum.splits)
next
  case (Suc k)
  show ?case
  proof (cases "year_step st")
    case (Inl e)
    then show ?thesis by simp
  next
    case (Inr st1)
    then show ?thesis using Suc [of st1] by simp
  qed
qed

lemma year_loop_slot_state: "year_loop k st = Inr (slot_state k st)"
  using year_loop_total [of k st] by (auto simp: slot_state_def)

lemma slot_state_0 [simp]: "slot_state 0 st = st"
  by (simp add: slot_state_def)

lemma slot_state_Suc: "year_step (slot_state k st) = Inr (slot_state (Suc k) st)"
  using year_loop_snoc [of k st] by (simp add: year_loop_slot_state)

lemma tracking_loop_snoc:
  "tracking_loop (Suc k) stg =
     (case tracking_loop k stg of Inl e \<Rightarrow> Inl e | Inr stg' \<Rightarrow> tracking_step stg')"
proof (induction k arbitrary: stg)
  case 0
  show ?case by (simp split: sum.splits)
next
  case (Suc k)
  show ?case
  proof (cases "tracking_step stg")
    case (Inl e)
    then show ?thesis by simp
  next
    case (Inr stg1)
    then show ?thesis using Suc [of stg1] by simp
  qed
qed

lemma tracking_loop_track_of:
  assumes "cur_socs st = socs" and "cur_count st = c"
  shows "tracking_loop k (st, g) =
           Inr (track_of st k (socs, c, g), snd (snd (slot_state k (socs, c, g))))"
proof (induction k)
  case 0
  show ?case using assms by (simp add: track_of_def)
next
  case (Suc k)
  let ?init = "(socs, c, g)"
  obtain socs1 c1 g1 where s1: "slot_state k ?init = (socs1, c1, g1)"
    by (metis surj_pair)
  obtain success can_provide available powers g2
    where eq: "simulate_fcr_slot socs1 g1 = ((success, can_provide, available, powers), g2)"
    by (metis surj_pair)
  have out: "slot_outcome k ?init = (success, can_provide, available, powers)"
    by (simp add: slot_outcome_def s1 eq)
  have len: "length can_provide = length socs1"
    using simulate_fcr_slot_lengths(1) [OF eq] .
  have s2: "slot_state (Suc k) ?init =
              (projr (update_soc socs1 powers can_provide), (if success then c1 + 1 else c1), g2)"
    using slot_state_Suc [of k ?init] year_step_Inr(1) [OF eq, of c1] by (simp add: s1)
  have step: "tracking_step (track_of st k ?init, g1) = Inr (track_of st (Suc k) ?init, g2)"
    by (simp add: tracking_step_def track_of_def s1 s2 eq out update_soc_Inr [OF len]
        slot_flag_def slot_powers_def has_enough_def)
  show ?case
    unfolding tracking_loop_snoc Suc by (simp add: s1 s2 step)
qed

lemma slot_state_length: "length (fst (slot_state k st)) = length (fst st)"
proof (induction k)
  case 0
  show ?case by simp
next
  case (Suc k)
  obtain socs1 c1 g1 where s1: "slot_state k st = (socs1, c1, g1)"
    by (metis prod_cases3)
  obtain success can_provide available powers g2
    where eq: "simulate_fcr_slot socs1 g1 = ((success, can_provide, available, powers), g2)"
    by (metis surj_pair)
  have "slot_state (Suc k) st =
          (projr (update_soc socs1 powers can_provide), (if success then c1 + 1 else c1), g2)"
    using slot_state_Suc [of k st] year_step_Inr(1) [OF eq, of c1] by (simp add: s1)
  then show ?case
    using Suc year_step_Inr(2) [OF eq] by (simp add: s1)
qed

lemma slot_state_count:
  "fst (snd (slot_state k st)) = fst (snd st) + count_true (map (\<lambda>t. slot_flag t st) [0..<k])"
proof (induction k)
  case 0
  show ?case by (simp add: count_true_def)
next
  case (Suc k)
  obtain socs1 c1 g1 where s1: "slot_state k st = (socs1, c1, g1)"
    by (metis prod_cases3)
  obtain success can_provide available powers g2
    where eq: "simulate_fcr_slot socs1 g1 = ((success, can_provide, available, powers), g2)"
    by (metis surj_pair)
  have s2: "slot_state (Suc k) st =
          (projr (update_soc socs1 powers can_provide), (if success then c1 + 1 else c1), g2)"
    using slot_state_Suc [of k st] year_step_Inr(1) [OF eq, of c1] by (simp add: s1)
  have fl: "slot_flag k st = success"
    by (simp add: slot_flag_def slot_outcome_def s1 eq)
  show ?case
    using Suc by (simp add: s1 s2 fl count_true_def)
qed

lemma count_true_le: "count_true bs \<le> length bs"
  by (simp add: count_true_def)

lemma simulate_year_eq:
  "simulate_year (int n) g =
     Inr (MIN_SUCCESS_RATE \<le> real (fst (snd (slot_state N_SLOTS_YEAR (year_init n g)))) / real N_SLOTS_YEAR,
          snd (snd (slot_state N_SLOTS_YEAR (year_init n g))))"
  by (simp add: simulate_year_def year_init_def year_loop_slot_state split: prod.splits)

lemma simulate_year_with_tracking_eq:
  "simulate_year_with_tracking (int n) g =
     Inr (\<lparr>soc_history = map (\<lambda>t. fst (slot_state t (year_init n g))) [0..<Suc N_SLOTS_YEAR],
           fcr_power_history =
             map (\<lambda>t. case slot_outcome t (year_init n g) of
                         (success, can_provide, available, powers) \<Rightarrow>
                           sum_list (mask_select powers can_provide)) [0..<N_SLOTS_YEAR],
           success_history = map (\<lambda>t. slot_flag t (year_init n g)) [0..<N_SLOTS_YEAR],
           available_history =
             map (\<lambda>t. case slot_outcome t (year_init n g) of
                         (success, can_provide, available, powers) \<Rightarrow> count_true available)
               [0..<N_SLOTS_YEAR],
           soc_ok_history =
             map (\<lambda>t. count_true (has_enough (fst (slot_state (Suc t) (year_init n g)))
                                      (slot_powers t (year_init n g)))) [0..<N_SLOTS_YEAR],
           success_rate =
             real (fst (snd (slot_state N_SLOTS_YEAR (year_init n g)))) / real N_SLOTS_YEAR\<rparr>,
          snd (snd (slot_state N_SLOTS_YEAR (year_init n g))))"
proof -
  obtain socs0 g0 where rn: "random_normal SOC_MEAN SOC_STD n g = (socs0, g0)"
    by (metis surj_pair)
  have yi: "year_init n g = (map Fin (clip_low 0 socs0), 0, g0)"
    by (simp add: year_init_def rn)
  let ?st0 = "\<lparr>cur_socs = map Fin (clip_low 0 socs0), cur_count = 0, soc_hist = [map Fin (clip_low 0 socs0)],
               fcr_power_hist = [], success_hist = [], available_hist = [], soc_ok_hist = []\<rparr>"
  have tl: "tracking_loop N_SLOTS_YEAR (?st0, g0) =
          Inr (track_of ?st0 N_SLOTS_YEAR (map Fin (clip_low 0 socs0), 0, g0),
               snd (snd (slot_state N_SLOTS_YEAR (map Fin (clip_low 0 socs0), 0, g0))))"
    by (rule tracking_loop_track_of) simp_all
  have hd: "map Fin (clip_low 0 socs0) # map (\<lambda>t. fst (slot_state (Suc t) (map Fin (clip_low 0 socs0), 0, g0))) [0..<N_SLOTS_YEAR]
         = map (\<lambda>t. fst (slot_state t (map Fin (clip_low 0 socs0), 0, g0))) [0..<Suc N_SLOTS_YEAR]"
    by (simp add: upt_conv_Cons map_Suc_upt [symmetric] del: upt_Suc)
  show ?thesis
    unfolding simulate_year_with_tracking_def yi
    using hd by (simp add: rn tl track_of_def Let_def del: upt_Suc)
qed

lemma year_init_count [simp]: "fst (snd (year_init n g)) = 0"
  by (simp add: year_init_def split: prod.splits)

lemma year_init_length [simp]: "length (fst (year_init n g)) = n"
  by (simp add: year_init_def random_normal_def split: prod.splits)

lemma final_count: "fst (snd (slot_state N_SLOTS_YEAR (year_init n g))) = count_true (year_flags n g)"
  by (simp add: slot_state_count year_flags_def)

lemma step_agree:
  "map_sum id (\<lambda>(st', g'). (cur_socs st', cur_count st', g')) (tracking_step (st, g)) =
     year_step (cur_socs st, cur_count st, g)"
proof -
  obtain success can_provide available powers g2
    where eq: "simulate_fcr_slot (cur_socs st) g = ((success, can_provide, available, powers), g2)"
    by (metis surj_pair)
  have len: "length can_provide = length (cur_socs st)"
    using simulate_fcr_slot_lengths(1) [OF eq] .
  show ?thesis
    by (simp add: tracking_step_def year_step_def eq update_soc_Inr [OF len])
qed

text \<open>
  Claim C3. One step of the tracking loop, with its history forgotten, is one step of
  the lightweight loop. So for every portfolio size and every random source (the
  initial SOC draw is its first draw) both variants run through the same SOC vectors,
  the same success flags in every slot and the same success count, hence the same
  success rate; the tracking variant keeps the history and returns the rate, the
  lightweight variant compares the rate with the minimum success rate.
\<close>

theorem year_variants_agree:
  "map_sum id (\<lambda>(st', g'). (cur_socs st', cur_count st', g')) (tracking_step (st, g0)) =
     year_step (cur_socs st, cur_count st, g0) \<and>
   (\<exists>r g' socs cnt.
     simulate_year_with_tracking (int n) g = Inr (r, g') \<and>
     year_loop N_SLOTS_YEAR (year_init n g) = Inr (socs, cnt, g') \<and>
     simulate_year (int n) g = Inr (MIN_SUCCESS_RATE \<le> real cnt / real N_SLOTS_YEAR, g') \<and>
     success_rate r = real cnt / real N_SLOTS_YEAR \<and>
     success_history r = map (\<lambda>t. slot_flag t (year_init n g)) [0..<N_SLOTS_YEAR] \<and>
     cnt = count_true (success_history r) \<and>
     soc_history r = map (\<lambda>t. fst (slot_state t (year_init n g))) [0..<Suc N_SLOTS_YEAR] \<and>
     last (soc_history r) = socs)"
proof -
  obtain socs cnt g' where fin: "slot_state N_SLOTS_YEAR (year_init n g) = (socs, cnt, g')"
    by (metis prod_cases3)
  have cnt: "cnt = count_true (year_flags n g)"
    using final_count [of n g] by (simp add: fin)
  show ?thesis
    using cnt
    by (simp add: step_agree simulate_year_with_tracking_eq simulate_year_eq year_loop_slot_state
        fin year_flags_def del: upt_Suc) (simp add: fin)
qed

text \<open>
  Claim C1, amended. The lightweight variant returns a boolean: whether the fraction of
  successful slots (the number of true success flags over the 2190 slots of the year, a
  value between 0 and 1) is at least the minimum success rate 0.95, that is, whether at
  least 2081 slots succeed. The fraction itself is what the tracking variant returns as
  its success rate.
\<close>

theorem simulate_year_returns_threshold:
  "map_sum id fst (simulate_year (int n) g) =
     Inr (MIN_SUCCESS_RATE \<le> real (count_true (year_flags n g)) / real N_SLOTS_YEAR) \<and>
   map_sum id fst (simulate_year (int n) g) = Inr (2081 \<le> count_true (year_flags n g)) \<and>
   map_sum id (\<lambda>(r, g'). (success_history r, success_rate r)) (simulate_year_with_tracking (int n) g) =
     Inr (year_flags n g, real (count_true (year_flags n g)) / real N_SLOTS_YEAR) \<and>
   0 \<le> real (count_true (year_flags n g)) / real N_SLOTS_YEAR \<and>
   real (count_true (year_flags n g)) / real N_SLOTS_YEAR \<le> 1"
proof -
  have le: "count_true (year_flags n g) \<le> N_SLOTS_YEAR"
    using count_true_le [of "year_flags n g"] by (simp add: year_flags_def)
  have thr: "(MIN_SUCCESS_RATE \<le> real (count_true (year_flags n g)) / real N_SLOTS_YEAR)
               = (2081 \<le> count_true (year_flags n g))"
    by (simp add: MIN_SUCCESS_RATE_def N_SLOTS_YEAR_def field_simps) linarith
  have pos: "0 < N_SLOTS_YEAR" by (simp add: N_SLOTS_YEAR_def)
  show ?thesis
    using le thr pos
    by (simp add: simulate_year_eq simulate_year_with_tracking_eq final_count year_flags_def
        del: upt_Suc)
qed

lemma simulate_fcr_slot_rng:
  "snd (simulate_fcr_slot socs g) =
     g\<lparr>gauss := (\<lambda>i. gauss g (i + length socs)), unif := (\<lambda>i. unif g (i + length socs))\<rparr>"
  by (simp add: simulate_fcr_slot_def Let_def random_normal_def random_random_def)

lemma simulate_fcr_slot_available_nth:
  assumes "simulate_fcr_slot socs g = ((success, can_provide, available, powers), g')"
    and "i < length socs"
  shows "available ! i = (unif g i < P_AVAILABLE_FCR)"
    and "powers ! i = max 20 (POWER_MEAN + POWER_STD * gauss g i)"
  using assms
  by (auto simp: simulate_fcr_slot_def Let_def random_normal_def random_random_def clip_low_def)

lemma success_needs_available:
  assumes "simulate_fcr_slot socs g = ((success, can_provide, available, powers), g')"
    and "\<forall>i<length socs. P_AVAILABLE_FCR \<le> unif g i"
  shows "\<not> success"
proof -
  note len = simulate_fcr_slot_lengths [OF assms(1)]
  have "\<not> can_provide ! i" if "i < length socs" for i
    using simulate_fcr_slot_can_nth [OF assms(1) that]
      simulate_fcr_slot_available_nth(1) [OF assms(1) that] assms(2) that by auto
  then have "(\<Sum>i<length socs. if can_provide ! i then powers ! i else 0) = 0"
    by simp
  then have "sum_list (mask_select powers can_provide) = 0"
    using sum_list_mask_select [of can_provide powers] len by simp
  then show ?thesis
    using simulate_fcr_slot_success [OF assms(1)] by (simp add: REQUIRED_POWER_def)
qed

lemma year_step_unavailable:
  assumes "\<forall>i<length socs. P_AVAILABLE_FCR \<le> unif g i"
  shows "\<exists>socs'. year_step (socs, c, g) = Inr (socs', c, snd (simulate_fcr_slot socs g)) \<and>
           length socs' = length socs"
proof -
  obtain success can_provide available powers g'
    where eq: "simulate_fcr_slot socs g = ((success, can_provide, available, powers), g')"
    by (metis surj_pair)
  have "\<not> success" using success_needs_available [OF eq assms] .
  then show ?thesis
    using year_step_Inr(1) [OF eq, of c] year_step_Inr(2) [OF eq] by (simp add: eq)
qed

lemma slot_state_front:
  "year_step st = Inr st1 \<Longrightarrow> slot_state (Suc k) st = slot_state k st1"
  by (simp add: slot_state_def)

lemma never_available_count:
  assumes "\<forall>i. P_AVAILABLE_FCR \<le> unif g i"
  shows "fst (snd (slot_state k (socs, c, g))) = c \<and>
         (\<forall>i. P_AVAILABLE_FCR \<le> unif (snd (snd (slot_state k (socs, c, g)))) i)"
  using assms
proof (induction k arbitrary: socs g)
  case 0
  then show ?case by simp
next
  case (Suc k)
  obtain socs' where st: "year_step (socs, c, g) = Inr (socs', c, snd (simulate_fcr_slot socs g))"
    using year_step_unavailable [of socs g c] Suc.prems by blast
  have nv: "\<forall>i. P_AVAILABLE_FCR \<le> unif (snd (simulate_fcr_slot socs g)) i"
    using Suc.prems by (simp add: simulate_fcr_slot_rng)
  show ?case
    unfolding slot_state_front [OF st] using Suc.IH [OF nv] .
qed

lemma empty_portfolio_state: "slot_state k ([], c, g) = ([], c, g)"
proof (induction k)
  case 0
  show ?case by simp
next
  case (Suc k)
  have "year_step ([], c, g) = Inr ([], c, g)"
    by (simp add: year_step_def simulate_fcr_slot_def random_normal_def random_random_def
        clip_low_def mask_select_def update_soc_empty_mask f64_clip_low_def REQUIRED_POWER_def)
  then show ?case
    using slot_state_Suc [of k "([], c, g)"] by (simp add: Suc)
qed

lemma slot_flag_empty: "slot_flag t ([], c, g) = False"
  by (simp add: slot_flag_def slot_outcome_def empty_portfolio_state simulate_fcr_slot_def
      random_normal_def random_random_def clip_low_def mask_select_def REQUIRED_POWER_def)

lemma year_init_0: "year_init 0 g = ([], 0, g)"
  by (simp add: year_init_def random_normal_def clip_low_def)

text \<open>
  Claim C9. For the empty portfolio the slot simulator sums no power and fails, and both
  year simulators complete without an error: every slot fails, the success count is 0,
  the tracking variant returns the success rate 0 and the lightweight variant returns
  \<open>False\<close>.
\<close>

theorem empty_portfolio:
  "simulate_fcr_slot [] g = ((False, [], [], []), g) \<and>
   simulate_year 0 g = Inr (False, g) \<and>
   year_loop N_SLOTS_YEAR (year_init 0 g) = Inr ([], 0, g) \<and>
   map_sum id (\<lambda>(r, g'). (success_rate r, success_history r, g')) (simulate_year_with_tracking 0 g)
     = Inr (0, replicate N_SLOTS_YEAR False, g)"
proof -
  have a: "simulate_fcr_slot [] g = ((False, [], [], []), g)"
    by (simp add: simulate_fcr_slot_def random_normal_def random_random_def
        clip_low_def mask_select_def REQUIRED_POWER_def)
  have b: "simulate_year 0 g = Inr (False, g)"
    using simulate_year_eq [of 0 g]
    by (simp add: year_init_0 empty_portfolio_state MIN_SUCCESS_RATE_def)
  have c: "year_loop N_SLOTS_YEAR (year_init 0 g) = Inr ([], 0, g)"
    by (simp add: year_loop_slot_state year_init_0 empty_portfolio_state)
  have d: "map (\<lambda>t. False) [0..<N_SLOTS_YEAR] = replicate N_SLOTS_YEAR False"
    by (simp add: map_replicate_const)
  have e: "map_sum id (\<lambda>(r, g'). (success_rate r, success_history r, g')) (simulate_year_with_tracking 0 g)
     = Inr (0, replicate N_SLOTS_YEAR False, g)"
    using simulate_year_with_tracking_eq [of 0 g]
    by (simp add: year_init_0 empty_portfolio_state slot_flag_empty d del: upt_Suc)
  show ?thesis using a b c e by blast
qed

lemma first_slot_only_count:
  "fst (snd (slot_state N_SLOTS_YEAR (year_init 100 rng_first_slot_only))) = 1"
proof -
  let ?g = "rng_first_slot_only"
  obtain socs0 g0 where yi: "year_init 100 ?g = (socs0, 0, g0)"
    using year_init_count [of 100 ?g] by (cases "year_init 100 ?g") auto
  have len0: "length socs0 = 100"
    using year_init_length [of 100 ?g] by (simp add: yi)
  have soc0: "socs0 ! i = Fin 600" if "i < 100" for i
    using yi that
    by (auto simp: year_init_def random_normal_def clip_low_def rng_first_slot_only_def
        SOC_MEAN_def)
  have g0: "gauss g0 = (\<lambda>i. 0)" "unif g0 = (\<lambda>i. if i < 100 then 0 else 9 / 10)"
    using yi by (auto simp: year_init_def random_normal_def rng_first_slot_only_def)
  obtain success can_provide available powers g1
    where eq: "simulate_fcr_slot socs0 g0 = ((success, can_provide, available, powers), g1)"
    by (metis surj_pair)
  note len = simulate_fcr_slot_lengths [OF eq]
  have pw: "powers ! i = 100" if "i < 100" for i
    using simulate_fcr_slot_available_nth(2) [OF eq, of i] that len0
    by (simp add: g0 POWER_MEAN_def)
  have av: "available ! i" if "i < 100" for i
    using simulate_fcr_slot_available_nth(1) [OF eq, of i] that len0
    by (simp add: g0 P_AVAILABLE_FCR_def)
  have cn: "can_provide ! i" if "i < 100" for i
    using simulate_fcr_slot_can_nth [OF eq, of i] that len0 pw [OF that] av [OF that] soc0 [OF that]
    by (simp add: ENERGY_HOURS_def f64_ge_def)
  have "(\<Sum>i<length socs0. if can_provide ! i then powers ! i else 0) = (\<Sum>i<(100::nat). (100::real))"
    unfolding len0 by (rule sum.cong) (simp_all add: pw cn)
  then have "sum_list (mask_select powers can_provide) = 10000"
    using sum_list_mask_select [of can_provide powers] len len0 by simp
  then have success
    using simulate_fcr_slot_success [OF eq] by (simp add: REQUIRED_POWER_def)
  then have st: "year_step (socs0, 0, g0) = Inr (projr (update_soc socs0 powers can_provide), 1, g1)"
    using year_step_Inr(1) [OF eq, of 0] by simp
  have "g1 = snd (simulate_fcr_slot socs0 g0)" by (simp add: eq)
  then have nv: "\<forall>i. P_AVAILABLE_FCR \<le> unif g1 i"
    by (simp add: simulate_fcr_slot_rng len0 g0 P_AVAILABLE_FCR_def)
  have N: "N_SLOTS_YEAR = Suc 2189" by (simp add: N_SLOTS_YEAR_def)
  show ?thesis
    unfolding yi N slot_state_front [OF st]
    using never_available_count [OF nv, of 2189 "projr (update_soc socs0 powers can_provide)" 1]
    by blast
qed

text \<open>
  Claim C1 as stated fails: with 100 assets of 100 kW that are available in the first
  slot only, one slot of 2190 succeeds; the fraction of successful slots is 1/2190, and
  the lightweight variant returns \<open>False\<close>.
\<close>

theorem simulate_year_not_fraction:
  "map_sum id fst (simulate_year 100 rng_first_slot_only) = Inr False \<and>
   real (count_true (year_flags 100 rng_first_slot_only)) / real N_SLOTS_YEAR = 1 / 2190 \<and>
   map_sum id (\<lambda>(r, g'). success_rate r) (simulate_year_with_tracking 100 rng_first_slot_only)
     = Inr (1 / 2190)"
proof -
  have c: "count_true (year_flags 100 rng_first_slot_only) = 1"
    using final_count [of 100 rng_first_slot_only] first_slot_only_count by simp
  have a: "map_sum id fst (simulate_year 100 rng_first_slot_only) = Inr False"
    unfolding simulate_year_eq [of 100 rng_first_slot_only, simplified] first_slot_only_count
    by (simp add: MIN_SUCCESS_RATE_def N_SLOTS_YEAR_def)
  have b: "map_sum id (\<lambda>(r, g'). success_rate r) (simulate_year_with_tracking 100 rng_first_slot_only)
     = Inr (1 / 2190)"
    unfolding simulate_year_with_tracking_eq [of 100 rng_first_slot_only, simplified]
      first_slot_only_count
    by (simp add: N_SLOTS_YEAR_def)
  show ?thesis using a b c by (simp add: N_SLOTS_YEAR_def)
qed

lemma threshold_cross_init: "year_init (Suc 0) rng_threshold_cross = ([Fin (801 / 2)], 0, \<lparr>gauss = (\<lambda>i. 0), unif = (\<lambda>i. 0)\<rparr>)"
  by (simp add: year_init_def random_normal_def clip_low_def rng_threshold_cross_def
      SOC_MEAN_def SOC_STD_def)

lemma threshold_cross_slot:
  "simulate_fcr_slot [Fin (801 / 2)] \<lparr>gauss = (\<lambda>i. 0), unif = (\<lambda>i. 0)\<rparr>
     = ((False, [True], [True], [100]), \<lparr>gauss = (\<lambda>i. 0), unif = (\<lambda>i. 0)\<rparr>)"
  by (simp add: simulate_fcr_slot_def Let_def random_normal_def random_random_def clip_low_def
      mask_select_def params_defs f64_ge_def)

lemma threshold_cross_state1:
  "\<exists>y. slot_state (Suc 0) (year_init (Suc 0) rng_threshold_cross)
          = ([Fin y], 0, \<lparr>gauss = (\<lambda>i. 0), unif = (\<lambda>i. 0)\<rparr>) \<and> y < 400"
proof -
  have c: "\<bar>801 / 2 + - (12 / 10) :: real\<bar> < 2 ^ 9" by simp
  have lt: "fl (801 / 2 + - (12 / 10)) < 400"
    using fl_bounds(2) [OF c] by simp
  have "slot_state (Suc 0) (year_init (Suc 0) rng_threshold_cross)
          = ([Fin (max 0 (fl (801 / 2 + - (12 / 10))))], 0, \<lparr>gauss = (\<lambda>i. 0), unif = (\<lambda>i. 0)\<rparr>)"
    using f64_of_real_Fin [OF c]
    by (simp add: slot_state_def threshold_cross_init year_step_def threshold_cross_slot
        update_soc_Inr f64_clip_low_def f64_add_def)
  then show ?thesis using lt by auto
qed

text \<open>
  Claim C10. In the tracking variant the SOC-sufficiency count recorded for slot \<open>t\<close>
  is taken on the SOC vector after the update of slot \<open>t\<close> (row \<open>t + 1\<close> of the SOC
  history), against the powers drawn in slot \<open>t\<close>. It can differ from the count on
  the SOC vector the slot was decided on: the single asset of \<open>rng_threshold_cross\<close>
  has enough SOC in slot 0 and delivers, the update takes it below the threshold, and
  the recorded count is 0 where the count before the update is 1.
\<close>

theorem soc_ok_count_is_post_update:
  "map_sum id (\<lambda>(r, g'). (soc_ok_history r, soc_history r)) (simulate_year_with_tracking (int n) g)
     = Inr (map (\<lambda>t. count_true (has_enough (fst (slot_state (Suc t) (year_init n g)))
                                    (slot_powers t (year_init n g)))) [0..<N_SLOTS_YEAR],
            map (\<lambda>t. fst (slot_state t (year_init n g))) [0..<Suc N_SLOTS_YEAR]) \<and>
   slot_outcome 0 (year_init (Suc 0) rng_threshold_cross) = (False, [True], [True], [100]) \<and>
   count_true (has_enough (fst (slot_state 0 (year_init (Suc 0) rng_threshold_cross)))
                 (slot_powers 0 (year_init (Suc 0) rng_threshold_cross))) = 1 \<and>
   map_sum id (\<lambda>(r, g'). soc_ok_history r ! 0) (simulate_year_with_tracking 1 rng_threshold_cross)
     = Inr 0"
proof -
  have a: "map_sum id (\<lambda>(r, g'). (soc_ok_history r, soc_history r)) (simulate_year_with_tracking (int n) g)
     = Inr (map (\<lambda>t. count_true (has_enough (fst (slot_state (Suc t) (year_init n g)))
                                    (slot_powers t (year_init n g)))) [0..<N_SLOTS_YEAR],
            map (\<lambda>t. fst (slot_state t (year_init n g))) [0..<Suc N_SLOTS_YEAR])"
    by (simp add: simulate_year_with_tracking_eq del: upt_Suc)
  have b: "slot_outcome 0 (year_init (Suc 0) rng_threshold_cross) = (False, [True], [True], [100])"
    by (simp add: slot_outcome_def threshold_cross_init threshold_cross_slot)
  have c: "count_true (has_enough (fst (slot_state 0 (year_init (Suc 0) rng_threshold_cross)))
                 (slot_powers 0 (year_init (Suc 0) rng_threshold_cross))) = 1"
    by (simp add: slot_powers_def b) (simp add: threshold_cross_init has_enough_def
        count_true_def ENERGY_HOURS_def f64_ge_def)
  have pos: "0 < N_SLOTS_YEAR" by (simp add: N_SLOTS_YEAR_def)
  have d: "map_sum id (\<lambda>(r, g'). soc_ok_history r ! 0) (simulate_year_with_tracking 1 rng_threshold_cross)
     = Inr 0"
  proof -
    obtain y where y: "slot_state (Suc 0) (year_init (Suc 0) rng_threshold_cross)
          = ([Fin y], 0, \<lparr>gauss = (\<lambda>i. 0), unif = (\<lambda>i. 0)\<rparr>)" "y < 400"
      using threshold_cross_state1 by blast
    show ?thesis
      using simulate_year_with_tracking_eq [of "Suc 0" rng_threshold_cross] pos y(2)
      by (simp add: y(1) slot_powers_def b has_enough_def count_true_def
          ENERGY_HOURS_def f64_ge_def del: upt_Suc)
  qed
  show ?thesis using a b c d by blast
qed

subsection \<open>Estimator and capacity search\<close>

declare range_up.simps [simp del] range_down.simps [simp del]

lemma simulate_year_total: "0 \<le> n \<Longrightarrow> \<exists>b g'. simulate_year n g = Inr (b, g')"
  using simulate_year_eq [of "nat n" g] by simp

lemma trial_loop_total: "0 \<le> n \<Longrightarrow> \<exists>s' g'. trial_loop k n s g = Inr (s', g')"
proof (induction k arbitrary: s g)
  case 0
  show ?case by simp
next
  case (Suc k)
  obtain b g1 where "simulate_year n g = Inr (b, g1)"
    using simulate_year_total [OF Suc.prems] by blast
  then show ?case using Suc.IH [OF Suc.prems] by simp
qed

lemma annual_success_probability_total:
  "0 \<le> n \<Longrightarrow> \<exists>p g'. annual_success_probability n 100 g = Inr (p, g')"
proof -
  assume "0 \<le> n"
  then obtain s' g' where "trial_loop (nat 100) n 0 g = Inr (s', g')"
    using trial_loop_total [of n "nat 100" 0 g] by blast
  then have "annual_success_probability n 100 g = Inr (real s' / real_of_int 100, g')"
    unfolding annual_success_probability_def by simp
  then show ?thesis by blast
qed

lemma search_loop_find:
  assumes "\<forall>n \<in> set cands. 0 \<le> n"
  shows "map_sum id fst (search_loop target cands g) =
     Inr (case find (\<lambda>(n, p). target \<le> p) (estimates cands g) of
            None \<Rightarrow> None
          | Some (n, p) \<Rightarrow>
              Some (n, real_of_int n * POWER_MEAN, real_of_int n * POWER_MEAN / REQUIRED_POWER, p))"
  using assms
proof (induction cands arbitrary: g)
  case Nil
  show ?case by simp
next
  case (Cons n ns)
  obtain p g1 where asp: "annual_success_probability n 100 g = Inr (p, g1)"
    using annual_success_probability_total [of n g] Cons.prems by auto
  have ih: "map_sum id fst (search_loop target ns g1) =
     Inr (case find (\<lambda>(n, p). target \<le> p) (estimates ns g1) of
            None \<Rightarrow> None
          | Some (n, p) \<Rightarrow>
              Some (n, real_of_int n * POWER_MEAN, real_of_int n * POWER_MEAN / REQUIRED_POWER, p))"
    by (rule Cons.IH) (use Cons.prems in simp)
  show ?case
    using ih by (simp add: asp installed_capacity_def Let_def id_def)
qed

lemma range_up_closed:
  "0 < step \<Longrightarrow>
   range_up i stop step = map (\<lambda>k. i + int k * step) [0..<nat ((stop - 1 - i) div step + 1)]"
proof (induction i stop step rule: range_up.induct)
  case (1 i stop step)
  show ?case
  proof (cases "i < stop")
    case True
    have d: "(stop - 1 - (i + step)) div step = (stop - 1 - i) div step - 1"
    proof -
      have "stop - 1 - (i + step) = (stop - 1 - i) + (- 1) * step" by simp
      then show ?thesis using 1(2) by (metis div_mult_self1 less_irrefl add.commute uminus_add_conv_diff)
    qed
    have nn: "0 \<le> (stop - 1 - i) div step"
      using True 1(2) by (simp add: pos_imp_zdiv_nonneg_iff)
    then have c: "nat ((stop - 1 - i) div step + 1) = Suc (nat ((stop - 1 - i) div step))"
      by simp
    have ih: "range_up (i + step) stop step =
          map (\<lambda>k. i + step + int k * step) [0..<nat ((stop - 1 - i) div step)]"
      using 1(1) True 1(2) d by simp
    have sh: "map (\<lambda>k. i + int k * step) [0..<Suc (nat ((stop - 1 - i) div step))]
            = i # map (\<lambda>k. i + step + int k * step) [0..<nat ((stop - 1 - i) div step)]"
      by (simp add: upt_conv_Cons map_Suc_upt [symmetric] algebra_simps del: upt_Suc)
    show ?thesis
      using True 1(2) by (subst range_up.simps) (simp add: ih c sh del: upt_Suc)
  next
    case False
    then have "(stop - 1 - i) div step < 0"
      using 1(2) by (simp add: div_neg_pos_less0)
    then show ?thesis
      using False by (subst range_up.simps) simp
  qed
qed

lemma spec_candidates_range:
  "0 < step \<Longrightarrow> py_range n_min (n_max + 1) step = Inr (spec_candidates n_min n_max step)"
  by (simp add: py_range_def spec_candidates_def range_up_closed)

lemma spec_candidates_bounds:
  assumes "0 < step" and "n \<in> set (spec_candidates n_min n_max step)"
  shows "n_min \<le> n \<and> n \<le> n_max"
proof -
  obtain k where k: "k < nat ((n_max - n_min) div step + 1)" and n: "n = n_min + int k * step"
    using assms(2) by (auto simp: spec_candidates_def)
  have "int k \<le> (n_max - n_min) div step" using k by linarith
  then have "int k * step \<le> (n_max - n_min) div step * step"
    using assms(1) by (simp add: mult_right_mono)
  also have "\<dots> \<le> n_max - n_min"
    using assms(1) pos_mod_sign [of step "n_max - n_min"] div_mult_mod_eq [of "n_max - n_min" step]
    by linarith
  finally show ?thesis using n assms(1) by simp
qed

lemma diagnostic_slot_ok:
  "0 < n \<Longrightarrow> diagnostic_slot n g =
     Inr (g\<lparr>gauss := (\<lambda>i. gauss g (i + 2 * nat n)), unif := (\<lambda>i. unif g (i + nat n))\<rparr>)"
  by (auto simp: diagnostic_slot_def random_normal_def random_random_def clip_low_def Let_def
      add.assoc mult_2)

text \<open>
  What the search of the specification returns: the candidates are ascending, the
  estimates are those of the candidates in order, a returned size is the first whose
  estimate reaches the target, and nothing is returned only when no estimate does.
\<close>

lemma spec_candidates_ascending:
  "0 < step \<Longrightarrow> sorted_wrt (<) (spec_candidates n_min n_max step)"
  by (simp add: spec_candidates_def sorted_wrt_map sorted_wrt_iff_nth_less)

lemma spec_capacity_search_first:
  assumes "spec_capacity_search target n_min n_max step g = Some (n, capacity, oversizing, p)"
  shows "\<exists>k < length (estimates (spec_candidates n_min n_max step) g).
           estimates (spec_candidates n_min n_max step) g ! k = (n, p) \<and> target \<le> p \<and>
           (\<forall>j < k. snd (estimates (spec_candidates n_min n_max step) g ! j) < target) \<and>
           capacity = real_of_int n * POWER_MEAN \<and> oversizing = capacity / REQUIRED_POWER"
proof -
  let ?es = "estimates (spec_candidates n_min n_max step) g"
  from assms have f: "find (\<lambda>(n, p). target \<le> p) ?es = Some (n, p)"
    and c: "capacity = real_of_int n * POWER_MEAN" "oversizing = capacity / REQUIRED_POWER"
    by (auto simp: spec_capacity_search_def split: option.splits prod.splits)
  from f obtain k where k: "k < length ?es" "?es ! k = (n, p)" "target \<le> p"
    and before: "\<forall>j<k. \<not> (case ?es ! j of (n, p) \<Rightarrow> target \<le> p)"
    unfolding find_Some_iff by auto
  from before have "\<forall>j<k. snd (?es ! j) < target"
    by (auto simp: case_prod_beta not_le)
  with k c show ?thesis by blast
qed

lemma spec_capacity_search_none:
  assumes "spec_capacity_search target n_min n_max step g = None"
  shows "\<forall>(n, p) \<in> set (estimates (spec_candidates n_min n_max step) g). p < target"
  using assms
  by (auto simp: spec_capacity_search_def find_None_iff not_le split: option.splits prod.splits)

lemma estimates_candidates: "map fst (estimates cands g) = cands"
  by (induction cands arbitrary: g) (auto split: prod.splits)

text \<open>
  Claim C2, amended. For a positive step and a positive lower bound the capacity search
  scans the sizes \<open>n_min, n_min + step, \<dots>\<close> up to \<open>n_max\<close> in ascending order and
  returns the first one whose estimate reaches the confidence target, with its installed capacity
  (size times mean power), its oversizing ratio (capacity over required power) and the
  estimate; when no scanned size reaches the target it returns \<open>None\<close>. The estimates
  are those of the run: the generator is the one left by the diagnostic slot.
\<close>

theorem capacity_search_first_clearing:
  assumes "0 < step" and "0 < n_min"
  shows "\<exists>g1. diagnostic_slot n_min g = Inr g1 \<and>
           py_range n_min (n_max + 1) step = Inr (spec_candidates n_min n_max step) \<and>
           map_sum id fst (find_min_assets_annual confidence_target n_min n_max step g) =
             Inr (spec_capacity_search confidence_target n_min n_max step g1)"
proof -
  have nn: "\<forall>n \<in> set (spec_candidates n_min n_max step). 0 \<le> n"
    using spec_candidates_bounds [OF assms(1)] assms(2) by fastforce
  show ?thesis
    using search_loop_find [OF nn]
    by (simp add: find_min_assets_annual_def diagnostic_slot_ok [OF assms(2)]
        spec_candidates_range [OF assms(1)] spec_capacity_search_def)
qed

text \<open>Two available assets, of which only the first has enough SOC.\<close>

theorem can_deliver_subset_available_witness:
  "case simulate_fcr_slot [Fin 600, Fin 300] rng_threshold_cross of
     ((success, can_provide, available, powers), g') \<Rightarrow>
       can_provide = [True, False] \<and> available = [True, True] \<and> can_provide ! 0 \<and> available ! 0"
  using can_deliver_subset_available [of "[Fin 600, Fin 300]" rng_threshold_cross]
  by (simp add: simulate_fcr_slot_def Let_def random_normal_def random_random_def clip_low_def
      mask_select_def params_defs rng_threshold_cross_def upt_conv_Cons f64_ge_def)

text \<open>
  Claim C4, amended. Loading the module fails, with \<^verbatim>\<open>ZeroDivisionError\<close>, exactly
  when the availability probability is 1; every other value, inside or outside the open
  interval (0, 1), gives a recharge rate and no error. For the module's own value 0.7 it
  is the constant \<open>SOC_RECHARGE_RATE\<close>.
\<close>

theorem recharge_rate_fails_only_at_one:
  "isl (recharge_rate_at_load p) = (p = 1) \<and>
   (recharge_rate_at_load p = Inl ZeroDivisionError) = (p = 1) \<and>
   recharge_rate_at_load P_AVAILABLE_FCR = Inr SOC_RECHARGE_RATE"
  by (auto simp: recharge_rate_at_load_def SOC_RECHARGE_RATE_def P_AVAILABLE_FCR_def)

text \<open>
  Claim C4 as stated fails: the availability probability 1.5 is outside (0, 1) and is
  not reported; the module loads with the negative recharge rate -0.007.
\<close>

theorem recharge_rate_unvalidated:
  "\<not> (0 < (3 / 2 :: real) \<and> (3 / 2 :: real) < 1) \<and>
   recharge_rate_at_load (3 / 2) = Inr (- (7 / 1000))"
  by (simp add: recharge_rate_at_load_def SOC_DEGRADATION_PER_USE_def TARGET_NET_BALANCE_def)

lemma simulate_year_never:
  assumes "\<forall>i. P_AVAILABLE_FCR \<le> unif g i"
  shows "\<exists>g'. simulate_year (int n) g = Inr (False, g') \<and> (\<forall>i. P_AVAILABLE_FCR \<le> unif g' i)"
proof -
  obtain socs0 g0 where yi: "year_init n g = (socs0, 0, g0)"
    using year_init_count [of n g] by (cases "year_init n g") auto
  have "unif g0 = unif g"
    using yi by (auto simp: year_init_def random_normal_def)
  then have nv: "\<forall>i. P_AVAILABLE_FCR \<le> unif g0 i" using assms by simp
  note fin = never_available_count [OF nv, of N_SLOTS_YEAR socs0 0]
  show ?thesis
    unfolding simulate_year_eq yi using fin
    by (simp add: MIN_SUCCESS_RATE_def)
qed

lemma trial_loop_never:
  assumes "\<forall>i. P_AVAILABLE_FCR \<le> unif g i"
  shows "\<exists>g'. trial_loop k (int n) s g = Inr (s, g') \<and> (\<forall>i. P_AVAILABLE_FCR \<le> unif g' i)"
  using assms
proof (induction k arbitrary: g)
  case 0
  then show ?case by simp
next
  case (Suc k)
  obtain g1 where y: "simulate_year (int n) g = Inr (False, g1)"
    and nv: "\<forall>i. P_AVAILABLE_FCR \<le> unif g1 i"
    using simulate_year_never [OF Suc.prems] by blast
  show ?case
    using Suc.IH [OF nv] by (simp add: y)
qed

lemma annual_success_probability_never:
  assumes "\<forall>i. P_AVAILABLE_FCR \<le> unif g i" and "0 \<le> m"
  shows "\<exists>g'. annual_success_probability m 100 g = Inr (0, g') \<and>
           (\<forall>i. P_AVAILABLE_FCR \<le> unif g' i)"
proof -
  obtain g' where t: "trial_loop (nat 100) (int (nat m)) 0 g = Inr (0, g')"
    and nv: "\<forall>i. P_AVAILABLE_FCR \<le> unif g' i"
    using trial_loop_never [OF assms(1), of "nat 100" "nat m" 0] by blast
  have "annual_success_probability m 100 g = Inr (0, g')"
    unfolding annual_success_probability_def using t assms(2) by simp
  then show ?thesis using nv by blast
qed

lemma estimates_never:
  assumes "\<forall>i. P_AVAILABLE_FCR \<le> unif g i" and "\<forall>m \<in> set cands. 0 \<le> m"
  shows "estimates cands g = map (\<lambda>m. (m, 0)) cands"
  using assms
proof (induction cands arbitrary: g)
  case Nil
  show ?case by simp
next
  case (Cons m ms)
  obtain g1 where a: "annual_success_probability m 100 g = Inr (0, g1)"
    and nv: "\<forall>i. P_AVAILABLE_FCR \<le> unif g1 i"
    using annual_success_probability_never [of g m] Cons.prems by auto
  have "estimates ms g1 = map (\<lambda>m. (m, 0)) ms"
    by (rule Cons.IH [OF nv]) (use Cons.prems in simp)
  then show ?case by (simp add: a)
qed

lemma candidates_example: "spec_candidates 100 120 10 = [100, 110, 120]"
  by (simp add: spec_candidates_def upt_conv_Cons)

text \<open>
  With no asset ever available every estimate is 0: the search over 100, 110, 120 finds
  nothing for the target 0.95, and for the target 0 it returns the first size, 100.
\<close>

theorem capacity_search_first_clearing_witness:
  "(0::int) < 10 \<and> (0::int) < 100 \<and>
   map_sum id fst (find_min_assets_annual (95 / 100) 100 120 10 rng_never_available) = Inr None \<and>
   map_sum id fst (find_min_assets_annual 0 100 120 10 rng_never_available)
     = Inr (Some (100, 10000, 1, 0))"
proof -
  have s: "(0::int) < 10" and m: "(0::int) < 100" by simp_all
  let ?g1 = "rng_never_available\<lparr>gauss := (\<lambda>i. gauss rng_never_available (i + 2 * nat 100)),
               unif := (\<lambda>i. unif rng_never_available (i + nat 100))\<rparr>"
  have d: "diagnostic_slot 100 rng_never_available = Inr ?g1"
    by (rule diagnostic_slot_ok) simp
  have nv: "\<forall>i. P_AVAILABLE_FCR \<le> unif ?g1 i"
    by (simp add: rng_never_available_def P_AVAILABLE_FCR_def)
  have e: "estimates (spec_candidates 100 120 10) ?g1 = [(100, 0), (110, 0), (120, 0)]"
    using estimates_never [OF nv, of "spec_candidates 100 120 10"]
    by (simp add: candidates_example)
  have none: "spec_capacity_search (95 / 100) 100 120 10 ?g1 = None"
    unfolding spec_capacity_search_def e by simp
  have some: "spec_capacity_search 0 100 120 10 ?g1 = Some (100, 10000, 1, 0)"
    unfolding spec_capacity_search_def e by (simp add: POWER_MEAN_def REQUIRED_POWER_def)
  show ?thesis
    using capacity_search_first_clearing [OF s m, of rng_never_available 120 "95 / 100"]
      capacity_search_first_clearing [OF s m, of rng_never_available 120 0]
    unfolding d using none some by simp
qed

lemma py_range_down_example: "py_range 130 101 (- 10) = Inr [130, 120, 110]"
  by (simp add: py_range_def range_down.simps)

text \<open>
  Claim C2 as stated fails outside these bounds. With a lower bound of 0 the search
  raises \<^verbatim>\<open>ValueError\<close> in its diagnostic slot, before any size is scanned; with a
  negative step \<^verbatim>\<open>range\<close> counts downwards, and the search from 130 with the
  upper bound 100 returns 130.
\<close>

theorem capacity_search_outside_domain:
  "find_min_assets_annual (95 / 100) 0 400 10 rng_never_available = Inl ValueError \<and>
   map_sum id fst (find_min_assets_annual 0 130 100 (- 10) rng_never_available)
     = Inr (Some (130, 13000, 13 / 10, 0))"
proof -
  have a: "find_min_assets_annual (95 / 100) 0 400 10 rng_never_available = Inl ValueError"
    by (simp add: find_min_assets_annual_def diagnostic_slot_def random_normal_def clip_low_def)
  let ?g1 = "rng_never_available\<lparr>gauss := (\<lambda>i. gauss rng_never_available (i + 2 * nat 130)),
               unif := (\<lambda>i. unif rng_never_available (i + nat 130))\<rparr>"
  have d: "diagnostic_slot 130 rng_never_available = Inr ?g1"
    by (rule diagnostic_slot_ok) simp
  have nv: "\<forall>i. P_AVAILABLE_FCR \<le> unif ?g1 i"
    by (simp add: rng_never_available_def P_AVAILABLE_FCR_def)
  obtain g2 where e: "annual_success_probability 130 100 ?g1 = Inr (0, g2)"
    using annual_success_probability_never [OF nv, of 130] by auto
  have b: "map_sum id fst (find_min_assets_annual 0 130 100 (- 10) rng_never_available)
     = Inr (Some (130, 13000, 13 / 10, 0))"
    unfolding find_min_assets_annual_def d
    using py_range_down_example e
    by (simp add: installed_capacity_def POWER_MEAN_def REQUIRED_POWER_def)
  show ?thesis using a b by blast
qed

end
